theory Spec2Isabelle
  imports Complex_Main "HOL-Library.Monad_Syntax"
begin

section \<open>ClearWave: the audio callback of \<^verbatim>\<open>clearwave.py\<close>\<close>

text \<open>
  The embedding follows \<^verbatim>\<open>src/clearwave.py\<close>. Samples are exact reals and spectra exact
  complex numbers: the rounding of \<^verbatim>\<open>float32\<close>/\<^verbatim>\<open>float64\<close> is not modelled, so
  \<^verbatim>\<open>astype(np.float32)\<close> and \<^verbatim>\<open>copy()\<close> are the identity, and every equality below
  is the exact-arithmetic counterpart of an equality "up to floating tolerance".
  A Python exception is the value \<open>None\<close> of an option type: every exception the callback
  can raise is a \<^verbatim>\<open>ValueError\<close> of numpy, and both handlers catch \<^verbatim>\<open>Exception\<close>.
\<close>

subsection \<open>Data\<close>

text \<open>
  A two-dimensional numpy array of shape \<open>(frames, channels)\<close>, stored by channel:
  \<open>chans a ! ch ! i\<close> is \<^verbatim>\<open>a[i, ch]\<close>. The row count is kept apart, so that the shapes
  \<open>(N, 0)\<close> are distinct.
\<close>

record 'a array2 =
  frames :: nat
  chans :: "'a list list"

type_synonym block = "real array2"

definition channels :: "'a array2 \<Rightarrow> nat" where
  "channels a = length (chans a)"

fun all_length :: "nat \<Rightarrow> 'a list list \<Rightarrow> bool" where
  "all_length n [] = True"
| "all_length n (c # cs) = (length c = n \<and> all_length n cs)"

definition wf_array :: "'a array2 \<Rightarrow> bool" where
  "wf_array a = all_length (frames a) (chans a)"

definition same_shape :: "'a array2 \<Rightarrow> 'b array2 \<Rightarrow> bool" where
  "same_shape a b = (frames a = frames b \<and> channels a = channels b)"

definition zeros_like :: "block \<Rightarrow> block" where
  "zeros_like a = \<lparr>frames = frames a, chans = map (\<lambda>c. replicate (frames a) 0) (chans a)\<rparr>"

text \<open>The fields of \<^verbatim>\<open>AudioProcessor\<close>, as \<^verbatim>\<open>__init__\<close> sets them (lines 12-19).\<close>

record processor =
  running :: bool
  noise_reduction :: real
  output_device :: "nat option"
  prev_buffer :: "block option"
  buffer_size :: nat
  overlap :: real

definition AudioProcessor_init :: processor where
  "AudioProcessor_init =
     \<lparr>running = False, noise_reduction = 1 / 2, output_device = None,
      prev_buffer = None, buffer_size = 2048, overlap = 1 / 2\<rparr>"

text \<open>Lines 33-34 (and 96-97): the previous buffer the block is crossfaded with.\<close>

definition init_prev :: "processor \<Rightarrow> block \<Rightarrow> block" where
  "init_prev self audio_data =
     (case prev_buffer self of None \<Rightarrow> zeros_like audio_data | Some p \<Rightarrow> p)"

subsection \<open>The numpy operations the callback uses\<close>

text \<open>
  \<^verbatim>\<open>np.fft.rfft\<close> of a real signal of length \<open>n\<close>: the bins \<open>0 \<dots> n div 2\<close> of the discrete
  Fourier transform. An empty signal raises ("Invalid number of FFT data points").
\<close>

definition rfft :: "real list \<Rightarrow> complex list option" where
  "rfft x =
     (let n = length x in
      if n < 1 then None
      else Some (map (\<lambda>k. \<Sum>l<n. of_real (x ! l) * cis (- (2 * pi * real k * real l / real n)))
                   [0..<n div 2 + 1]))"

text \<open>
  \<^verbatim>\<open>np.fft.irfft\<close> with the default output length \<open>n = 2 * (m - 1)\<close> for \<open>m\<close> bins: the
  bins are taken as the non-negative half of a Hermitian spectrum, the other half is
  their conjugate mirror, and the result is the real part of the inverse transform (so the
  imaginary parts of the first and the last bin are dropped). \<open>n < 1\<close> raises.
\<close>

definition hermitian :: "complex list \<Rightarrow> nat \<Rightarrow> nat \<Rightarrow> complex" where
  "hermitian X n k = (if k < length X then X ! k else cnj (X ! (n - k)))"

definition irfft :: "complex list \<Rightarrow> real list option" where
  "irfft X =
     (let n = 2 * (length X - 1) in
      if n < 1 then None
      else Some (map (\<lambda>j. Re (\<Sum>k<n. hermitian X n k * cis (2 * pi * real j * real k / real n))
                           / real n)
                   [0..<n]))"

definition np_mean :: "real list \<Rightarrow> real" where
  "np_mean xs = sum_list xs / real (length xs)"

text \<open>\<^verbatim>\<open>np.hanning(M)\<close>: \<open>0.5 + 0.5 * cos (pi * n / (M - 1))\<close> for \<open>n = 1 - M, 3 - M, \<dots>, M - 1\<close>.\<close>

definition hanning :: "nat \<Rightarrow> real list" where
  "hanning M =
     (if M < 1 then [] else if M = 1 then [1]
      else map (\<lambda>i. 1 / 2 + 1 / 2 * cos (pi * (2 * real i + 1 - real M) / real (M - 1)))
             [0..<M])"

text \<open>
  \<^verbatim>\<open>np.convolve(a, v, mode='same')\<close> on one-dimensional arrays: the arguments are swapped
  when \<open>v\<close> is the longer one, an empty argument raises, and the result is the centre of
  the full convolution, as long as the longer argument.
\<close>

definition conv_full :: "real list \<Rightarrow> real list \<Rightarrow> nat \<Rightarrow> real" where
  "conv_full a v t =
     sum_list (map (\<lambda>k. if k \<le> t \<and> t - k < length a then a ! (t - k) * v ! k else 0)
                 [0..<length v])"

definition np_convolve_same :: "real list \<Rightarrow> real list \<Rightarrow> real list option" where
  "np_convolve_same a0 v0 =
     (let a = (if length v0 > length a0 then v0 else a0);
          v = (if length v0 > length a0 then a0 else v0)
      in if length a = 0 \<or> length v = 0 then None
         else Some (map (\<lambda>i. conv_full a v (i + (length v - 1 - length v div 2)))
                      [0..<length a]))"

text \<open>
  \<^verbatim>\<open>np.convolve\<close> as the callback calls it (always with \<^verbatim>\<open>mode='same'\<close>), on arrays of
  either depth: numpy's \<^verbatim>\<open>correlate\<close> accepts one-dimensional arrays only and raises
  \<^verbatim>\<open>ValueError\<close> ("object too deep for desired array") for a two-dimensional argument,
  whatever its values.
\<close>

datatype ndarray = Array1 "real list" | Array2 "real array2"

definition np_convolve :: "ndarray \<Rightarrow> ndarray \<Rightarrow> real list option" where
  "np_convolve a v =
     (case (a, v) of
        (Array1 a1, Array1 v1) \<Rightarrow> np_convolve_same a1 v1
      | _ \<Rightarrow> None)"

text \<open>\<^verbatim>\<open>np.max\<close>: a zero-size array raises.\<close>

definition np_max :: "real list \<Rightarrow> real option" where
  "np_max xs = (if xs = [] then None else Some (Max (set xs)))"

text \<open>\<^verbatim>\<open>int(x)\<close> of a float truncates towards zero.\<close>

definition py_int :: "real \<Rightarrow> int" where
  "py_int x = (if 0 \<le> x then \<lfloor>x\<rfloor> else \<lceil>x\<rceil>)"

text \<open>\<^verbatim>\<open>np.linspace(start, stop, num)\<close>: a negative \<open>num\<close> raises.\<close>

definition linspace :: "real \<Rightarrow> real \<Rightarrow> int \<Rightarrow> real list option" where
  "linspace start stop num =
     (if num < 0 then None
      else Some (if nat num = 1 then [start]
                 else map (\<lambda>i. start + real i * ((stop - start) / real (nat num - 1)))
                        [0..<nat num]))"

subsubsection \<open>Broadcasting\<close>

text \<open>
  Two dimensions are compatible when they are equal or one of them is 1; an operand of
  length 1 is repeated. An in-place operation moreover needs the result to have the shape
  of its target.
\<close>

definition bshape :: "nat \<Rightarrow> nat \<Rightarrow> nat option" where
  "bshape a b = (if a = b then Some a else if a = 1 then Some b else if b = 1 then Some a else None)"

definition stretch :: "nat \<Rightarrow> 'a list \<Rightarrow> 'a list" where
  "stretch n xs = (if length xs = n then xs else replicate n (hd xs))"

definition broadcast_to :: "nat \<Rightarrow> 'a list \<Rightarrow> 'a list option" where
  "broadcast_to n xs =
     (if length xs = n then Some xs
      else if length xs = 1 then Some (replicate n (hd xs)) else None)"

definition binop2 :: "('a \<Rightarrow> 'b \<Rightarrow> 'c) \<Rightarrow> 'a array2 \<Rightarrow> 'b array2 \<Rightarrow> 'c array2 option" where
  "binop2 f a b = do {
     n \<leftarrow> bshape (frames a) (frames b);
     c \<leftarrow> bshape (channels a) (channels b);
     Some \<lparr>frames = n,
           chans = map2 (\<lambda>ca cb. map2 f (stretch n ca) (stretch n cb))
                     (stretch c (chans a)) (stretch c (chans b))\<rparr>
   }"

definition inplace2 :: "('a \<Rightarrow> 'b \<Rightarrow> 'a) \<Rightarrow> 'a array2 \<Rightarrow> 'b array2 \<Rightarrow> 'a array2 option" where
  "inplace2 f a b = do {
     r \<leftarrow> binop2 f a b;
     if frames r = frames a \<and> channels r = channels a then Some r else None
   }"

text \<open>\<^verbatim>\<open>x[:, np.newaxis]\<close> of a one-dimensional array: shape \<open>(len(x), 1)\<close>.\<close>

definition newaxis :: "'a list \<Rightarrow> 'a array2" where
  "newaxis xs = \<lparr>frames = length xs, chans = [xs]\<rparr>"

text \<open>
  The slices \<^verbatim>\<open>a[:f]\<close> and \<^verbatim>\<open>a[-f:]\<close> for \<open>f \<ge> 0\<close>, and the write through the view
  \<^verbatim>\<open>a[:f]\<close>. Python reads \<^verbatim>\<open>a[-0:]\<close> as \<^verbatim>\<open>a[0:]\<close>, the whole array.
\<close>

definition rows_take :: "nat \<Rightarrow> 'a array2 \<Rightarrow> 'a array2" where
  "rows_take f a = \<lparr>frames = min f (frames a), chans = map (take f) (chans a)\<rparr>"

definition rows_tail :: "nat \<Rightarrow> 'a array2 \<Rightarrow> 'a array2" where
  "rows_tail f a =
     (if f = 0 then a
      else \<lparr>frames = min f (frames a), chans = map (\<lambda>c. drop (length c - f) c) (chans a)\<rparr>)"

definition rows_put :: "nat \<Rightarrow> 'a array2 \<Rightarrow> 'a array2 \<Rightarrow> 'a array2" where
  "rows_put f a r = a\<lparr>chans := map2 (\<lambda>c rc. rc @ drop f c) (chans a) (chans r)\<rparr>"

subsection \<open>The first processing section (lines 26-89)\<close>

text \<open>Lines 42-46: the keep-mask of a spectrum.\<close>

definition keep_mask :: "complex list \<Rightarrow> real \<Rightarrow> bool list" where
  "keep_mask freq_data nr =
     (let magnitudes = map cmod freq_data;
          threshold = np_mean magnitudes * nr
      in map (\<lambda>m. m > threshold) magnitudes)"

text \<open>Lines 41-62: the spectral gate of one channel.\<close>

definition gate :: "real list \<Rightarrow> real \<Rightarrow> real list option" where
  "gate channel_data nr = do {
     freq_data \<leftarrow> rfft channel_data;
     let mask = keep_mask freq_data nr;
     let smoothing_window = hanning 5;
     smoothed_mask \<leftarrow> np_convolve (Array1 (map of_bool mask))
        (Array1 (map (\<lambda>w. w / sum_list smoothing_window) smoothing_window));
     scale \<leftarrow> broadcast_to (length freq_data) smoothed_mask;
     let freq_data = map2 (\<lambda>z s. z * of_real s) freq_data scale;
     clean_audio \<leftarrow> irfft freq_data;
     let clean_audio = (if length clean_audio \<noteq> length channel_data
                        then take (length channel_data) clean_audio else clean_audio);
     Some clean_audio
   }"

text \<open>Line 65: \<^verbatim>\<open>audio_data[:, ch] = clean_audio\<close>.\<close>

definition store_column :: "block \<Rightarrow> nat \<Rightarrow> real list \<Rightarrow> block option" where
  "store_column audio_data ch clean_audio = do {
     col \<leftarrow> broadcast_to (frames audio_data) clean_audio;
     Some (audio_data\<lparr>chans := (chans audio_data)[ch := col]\<rparr>)
   }"

text \<open>Lines 37-65: the loop over \<^verbatim>\<open>range(audio_data.shape[1])\<close>.\<close>

fun channel_loop :: "real \<Rightarrow> nat list \<Rightarrow> block \<Rightarrow> block option" where
  "channel_loop nr [] audio_data = Some audio_data"
| "channel_loop nr (ch # chs) audio_data = do {
     clean_audio \<leftarrow> gate (chans audio_data ! ch) nr;
     audio_data \<leftarrow> store_column audio_data ch clean_audio;
     channel_loop nr chs audio_data
   }"

text \<open>Lines 68-74 (and 117-123): the crossfade with the previous buffer.\<close>

definition fade_length :: "block \<Rightarrow> real \<Rightarrow> int" where
  "fade_length audio_data ov = py_int (real (frames audio_data) * ov)"

definition crossfade :: "block \<Rightarrow> block \<Rightarrow> real \<Rightarrow> block option" where
  "crossfade audio_data prev ov = do {
     let fade_len = fade_length audio_data ov;
     fade_in \<leftarrow> map_option newaxis (linspace 0 1 fade_len);
     fade_out \<leftarrow> map_option newaxis (linspace 1 0 fade_len);
     let f = nat fade_len;
     head \<leftarrow> inplace2 (*) (rows_take f audio_data) fade_in;
     let audio_data = rows_put f audio_data head;
     faded \<leftarrow> binop2 (*) (rows_tail f prev) fade_out;
     head \<leftarrow> inplace2 (+) (rows_take f audio_data) faded;
     Some (rows_put f audio_data head)
   }"

text \<open>Lines 80-82 (and 129-130): peak normalisation.\<close>

definition normalize :: "block \<Rightarrow> block option" where
  "normalize audio_data = do {
     max_val \<leftarrow> np_max (map abs (concat (chans audio_data)));
     Some (if max_val > 0
           then audio_data\<lparr>chans := map (map (\<lambda>x. x / max_val * (9 / 10))) (chans audio_data)\<rparr>
           else audio_data)
   }"

text \<open>
  \<^verbatim>\<open>outdata[:] = x\<close>. The transport hands the callback \<^verbatim>\<open>indata\<close> and \<^verbatim>\<open>outdata\<close> of one
  shape \<open>(frames, channels)\<close>, so the shape of \<^verbatim>\<open>outdata\<close> is read off \<^verbatim>\<open>indata\<close>.
\<close>

definition assign_out :: "block \<Rightarrow> block \<Rightarrow> block option" where
  "assign_out indata x = inplace2 (\<lambda>_ v. v) indata x"

text \<open>
  The body of the first \<^verbatim>\<open>try\<close>. The transport delivers two-dimensional blocks, for which
  the reshape of line 30 is not taken. \<open>process1\<close> is lines 36-74, the gated and
  crossfaded block, read with the previous buffer of lines 33-34. The result of \<open>try1\<close> is
  the processor as the body left it (an exception keeps the assignments made before it:
  line 34, and line 77 once the crossfade has returned) and the block written to
  \<^verbatim>\<open>outdata\<close>, or \<open>None\<close> when the body raised.
\<close>

definition process1 :: "processor \<Rightarrow> block \<Rightarrow> block option" where
  "process1 self indata = do {
     let audio_data = indata;
     audio_data \<leftarrow> channel_loop (noise_reduction self) [0..<channels audio_data] audio_data;
     crossfade audio_data (init_prev self indata) (overlap self)
   }"

definition try1 :: "processor \<Rightarrow> block \<Rightarrow> processor \<times> block option" where
  "try1 self indata =
     (let self = self\<lparr>prev_buffer := Some (init_prev self indata)\<rparr>
      in case process1 self indata of
           None \<Rightarrow> (self, None)
         | Some audio_data \<Rightarrow>
             (self\<lparr>prev_buffer := Some audio_data\<rparr>,
              normalize audio_data \<bind> assign_out indata))"

text \<open>Lines 26-89: the first \<^verbatim>\<open>try\<close> with its handler, which writes the raw input.\<close>

definition section1 :: "processor \<Rightarrow> block \<Rightarrow> processor \<times> block" where
  "section1 self indata =
     (case try1 self indata of
        (self', Some outdata) \<Rightarrow> (self', outdata)
      | (self', None) \<Rightarrow> (self', indata))"

subsection \<open>The second processing section (lines 91-136)\<close>

definition rfft_axis0 :: "block \<Rightarrow> complex array2 option" where
  "rfft_axis0 a =
     (if frames a < 1 then None
      else map_option (\<lambda>cs. \<lparr>frames = frames a div 2 + 1, chans = cs\<rparr>)
             (those (map rfft (chans a))))"

definition irfft_axis0 :: "complex array2 \<Rightarrow> block option" where
  "irfft_axis0 a =
     (if 2 * (frames a - 1) < 1 then None
      else map_option (\<lambda>cs. \<lparr>frames = 2 * (frames a - 1), chans = cs\<rparr>)
             (those (map irfft (chans a))))"

text \<open>
  Lines 112-132, the code after the smoothing of the mask.
\<close>

definition finish2 ::
  "processor \<Rightarrow> block \<Rightarrow> block \<Rightarrow> complex array2 \<Rightarrow> real list \<Rightarrow> processor \<times> block option" where
  "finish2 self indata prev freq_data smoothed_mask =
     (case binop2 (\<lambda>z s. z * of_real s) freq_data (newaxis smoothed_mask)
             \<bind> irfft_axis0
             \<bind> (\<lambda>clean_audio. crossfade clean_audio prev (overlap self)) of
        None \<Rightarrow> (self, None)
      | Some clean_audio \<Rightarrow>
          (self\<lparr>prev_buffer := Some clean_audio\<rparr>,
           normalize clean_audio \<bind> assign_out indata))"

text \<open>
  The body of the second \<^verbatim>\<open>try\<close>: the transform of the whole block along axis 0, one
  threshold from the mean over all bins of all channels, and \<^verbatim>\<open>np.convolve\<close> on the
  two-dimensional mask. (\<^verbatim>\<open>phases\<close> of line 103 is computed and never used.)
\<close>

definition try2 :: "processor \<Rightarrow> block \<Rightarrow> processor \<times> block option" where
  "try2 self indata =
     (let audio_data = indata;
          prev = init_prev self audio_data;
          self = self\<lparr>prev_buffer := Some prev\<rparr>
      in case rfft_axis0 audio_data of
           None \<Rightarrow> (self, None)
         | Some freq_data \<Rightarrow>
             (let magnitudes = map (map cmod) (chans freq_data);
                  threshold = np_mean (concat magnitudes) * noise_reduction self;
                  mask = map (map (\<lambda>m. m > threshold)) magnitudes
              in case np_convolve
                        (Array2 \<lparr>frames = frames freq_data, chans = map (map of_bool) mask\<rparr>)
                        (Array1 (hanning 5)) of
                   None \<Rightarrow> (self, None)
                 | Some smoothed_mask \<Rightarrow> finish2 self indata prev freq_data smoothed_mask))"

definition section2 :: "processor \<Rightarrow> block \<Rightarrow> block \<Rightarrow> processor \<times> block" where
  "section2 self indata outdata =
     (case try2 self indata of
        (self', Some outdata') \<Rightarrow> (self', outdata')
      | (self', None) \<Rightarrow> (self', indata))"

text \<open>
  The callback: both sections in sequence on the same \<^verbatim>\<open>indata\<close>; the result is the
  processor afterwards and the final content of \<^verbatim>\<open>outdata\<close>. The arguments \<^verbatim>\<open>frames\<close>
  and \<^verbatim>\<open>time\<close> are not read, and \<^verbatim>\<open>status\<close> and the caught exceptions are only printed.
\<close>

definition callback :: "processor \<Rightarrow> block \<Rightarrow> processor \<times> block" where
  "callback self indata =
     (let (self, outdata) = section1 self indata
      in section2 self indata outdata)"

text \<open>\<^verbatim>\<open>AudioProcessor.stop\<close> (lines 179-181).\<close>

definition stop :: "processor \<Rightarrow> processor" where
  "stop self = self\<lparr>running := False, prev_buffer := None\<rparr>"

text \<open>
  \<^verbatim>\<open>AudioDenoiser.toggle_processing\<close> (lines 265-273), as it acts on the processor; the
  device is \<^verbatim>\<open>output_combo.currentData()\<close>. \<^verbatim>\<open>start()\<close> launches \<^verbatim>\<open>run\<close>, which keeps the
  stream open, and the transport calling the callback, until one of its polls (every
  100 ms, lines 172-173) finds \<^verbatim>\<open>running\<close> cleared. Neither \<^verbatim>\<open>run\<close> nor this method assigns
  \<^verbatim>\<open>prev_buffer\<close>.
\<close>

definition toggle_processing :: "processor \<Rightarrow> nat option \<Rightarrow> processor" where
  "toggle_processing self device =
     (if \<not> running self then self\<lparr>output_device := device, running := True\<rparr>
      else stop self)"

subsection \<open>The control surface\<close>

text \<open>
  The part of \<^verbatim>\<open>AudioDenoiser\<close> that owns the strength: the slider (a \<^verbatim>\<open>QSlider\<close> starts
  with range 0..99 and value 0), whether its \<^verbatim>\<open>valueChanged\<close> signal is connected to
  \<^verbatim>\<open>update_noise_reduction\<close>, and the processor, which does not exist before line 231.
\<close>

record denoiser =
  slider_minimum :: int
  slider_maximum :: int
  slider_value :: int
  value_changed_connected :: bool
  audio_processor :: "processor option"

text \<open>Lines 257-258. Without a processor the attribute access raises.\<close>

definition update_noise_reduction :: "denoiser \<Rightarrow> int \<Rightarrow> denoiser option" where
  "update_noise_reduction self v =
     (case audio_processor self of
        None \<Rightarrow> None
      | Some p \<Rightarrow> Some (self\<lparr>audio_processor := Some (p\<lparr>noise_reduction := real_of_int v / 100\<rparr>)\<rparr>))"

text \<open>
  \<^verbatim>\<open>QSlider.setValue\<close>: the value is clamped to the range, and \<^verbatim>\<open>valueChanged\<close> is
  emitted to the connected slot when the value changes.
\<close>

definition setValue :: "denoiser \<Rightarrow> int \<Rightarrow> denoiser option" where
  "setValue self v =
     (let v' = max (slider_minimum self) (min (slider_maximum self) v);
          self' = self\<lparr>slider_value := v'\<rparr>
      in if v' \<noteq> slider_value self \<and> value_changed_connected self
         then update_noise_reduction self' v' else Some self')"

text \<open>\<^verbatim>\<open>AudioDenoiser.__init__\<close>, lines 217-231, in the order of the source.\<close>

definition AudioDenoiser_init :: "denoiser option" where
  "AudioDenoiser_init = do {
     let self = \<lparr>slider_minimum = 0, slider_maximum = 99, slider_value = 0,
                 value_changed_connected = False, audio_processor = None\<rparr>;
     let self = self\<lparr>slider_minimum := 0\<rparr>;
     let self = self\<lparr>slider_maximum := 100\<rparr>;
     self \<leftarrow> setValue self 30;
     let self = self\<lparr>value_changed_connected := True\<rparr>;
     let self = self\<lparr>audio_processor := Some AudioProcessor_init\<rparr>;
     Some self
   }"

section \<open>The transform pair\<close>

lemma upt_5: "[0..<5] = [0,1,2,3,4]" by (simp add: upt_rec)

lemma hanning_5: "hanning 5 = [0, 1/2, 1, 1/2, 0]"
proof -
  have c0: "cos (pi * (- 4) / 4) = -1" by simp
  have c1: "cos (pi * (- 2) / 4) = 0" using cos_pi_half by (simp add: field_simps)
  have c3: "cos (pi * 2 / 4) = 0" using cos_pi_half by (simp add: field_simps)
  have c4: "cos (pi * 4 / 4) = -1" by simp
  show ?thesis
    using c0 c1 c3 c4 by (simp add: hanning_def upt_5)
qed

lemma length_rfft: "rfft x = Some X \<Longrightarrow> length X = length x div 2 + 1"
  by (auto simp: rfft_def Let_def split: if_splits)

lemma rfft_zeros: "0 < n \<Longrightarrow> rfft (replicate n 0) = Some (replicate (n div 2 + 1) 0)"
  by (auto simp: rfft_def Let_def map_replicate_const intro!: nth_equalityI)

lemma length_irfft: "irfft X = Some y \<Longrightarrow> length y = 2 * (length X - 1)"
  by (auto simp: irfft_def Let_def split: if_splits)

lemma hermitian_zeros: "k < 2 * (m - 1) \<Longrightarrow> hermitian (replicate m 0) (2 * (m - 1)) k = 0"
  by (auto simp: hermitian_def)

lemma irfft_zeros: "2 \<le> m \<Longrightarrow> irfft (replicate m 0) = Some (replicate (2 * (m - 1)) 0)"
  by (auto simp: irfft_def Let_def hermitian_zeros simp del: One_nat_def intro!: nth_equalityI)

text \<open>
  The sum of the \<open>n\<close>-th roots of unity raised to a power \<open>d\<close>: \<open>n\<close> when \<open>n\<close>
  divides \<open>d\<close>, and 0 otherwise (a geometric sum).
\<close>

lemma cis_eq_1_int: "cis t = 1 \<Longrightarrow> \<exists>j::int. t = of_int j * (2 * pi)"
  using cos_one_2pi_int[of t] by (auto simp: complex_eq_iff)

lemma cis_2pi_int: "cis (2 * pi * real_of_int q) = 1"
  by (rule cis_multiple_2pi) simp

lemma unity_sum:
  fixes d :: int
  assumes n: "0 < n"
  shows "(\<Sum>k<n. cis (2 * pi * of_int d * real k / real n)) = (if int n dvd d then of_nat n else 0)"
proof -
  define w where "w = cis (2 * pi * of_int d / real n)"
  have pw: "cis (2 * pi * of_int d * real k / real n) = w ^ k" for k
    by (simp add: w_def DeMoivre mult_ac)
  have wn: "w ^ n = 1"
  proof -
    have "w ^ n = cis (2 * pi * of_int d)" using n by (simp add: w_def DeMoivre)
    then show ?thesis by (simp only: cis_2pi_int)
  qed
  show ?thesis
  proof (cases "int n dvd d")
    case True
    then obtain q where q: "d = int n * q" by (auto simp: dvd_def)
    have "2 * pi * of_int d / real n = 2 * pi * of_int q" using n by (simp add: q)
    then have "w = 1" by (simp only: w_def cis_2pi_int)
    then show ?thesis using True by (simp add: pw)
  next
    case False
    have "w \<noteq> 1"
    proof
      assume "w = 1"
      then obtain j :: int where j: "2 * pi * of_int d / real n = of_int j * (2 * pi)"
        unfolding w_def using cis_eq_1_int by blast
      then have "real_of_int d = real_of_int (j * int n)" using n by (simp add: field_simps)
      then have "d = j * int n" using of_int_eq_iff by blast
      with False show False by simp
    qed
    then have "(\<Sum>k<n. w ^ k) = 0" by (simp add: sum_gp_strict wn)
    then show ?thesis using False by (simp add: pw)
  qed
qed

lemma rfft_nth:
  assumes "rfft x = Some X" "k < length x div 2 + 1"
  shows "X ! k = (\<Sum>l<length x. of_real (x ! l) * cis (- (2 * pi * real k * real l / real (length x))))"
  using assms by (auto simp: rfft_def Let_def simp del: upt_Suc split: if_splits)

lemma cis_mirror:
  assumes "0 < n" "k \<le> n"
  shows "cis (2 * pi * real (n - k) * real l / real n) = cis (- (2 * pi * real k * real l / real n))"
proof -
  have "2 * pi * real (n - k) * real l / real n
        = 2 * pi * real_of_int (int l) + (- (2 * pi * real k * real l / real n))"
    using assms by (simp add: field_simps)
  then have "cis (2 * pi * real (n - k) * real l / real n)
        = cis (2 * pi * real_of_int (int l)) * cis (- (2 * pi * real k * real l / real n))"
    by (simp only: cis_mult)
  then show ?thesis by (simp only: cis_2pi_int mult_1)
qed

lemma hermitian_rfft:
  assumes X: "rfft x = Some X" and n: "n = length x" "even n" "0 < n" and k: "k < n"
  shows "hermitian X n k = (\<Sum>l<n. of_real (x ! l) * cis (- (2 * pi * real k * real l / real n)))"
proof (cases "k < n div 2 + 1")
  case True
  then show ?thesis using rfft_nth[OF X, of k] length_rfft[OF X] n by (simp add: hermitian_def)
next
  case False
  then have nk: "n - k < n div 2 + 1" using n k by (auto elim!: evenE)
  have "hermitian X n k = cnj (X ! (n - k))"
    using False length_rfft[OF X] n by (simp add: hermitian_def)
  also have "\<dots> = (\<Sum>l<n. of_real (x ! l) * cis (2 * pi * real (n - k) * real l / real n))"
    using rfft_nth[OF X, of "n - k"] nk n by (simp add: cis_cnj)
  also have "\<dots> = (\<Sum>l<n. of_real (x ! l) * cis (- (2 * pi * real k * real l / real n)))"
    using cis_mirror[of n k] n k by simp
  finally show ?thesis .
qed

lemma dft_inverse:
  assumes n: "0 < n" and j: "j < n"
  shows "(\<Sum>k<n. (\<Sum>l<n. of_real (x l) * cis (- (2 * pi * real k * real l / real n)))
                  * cis (2 * pi * real j * real k / real n))
         = of_nat n * complex_of_real (x j)"
proof -
  have "(\<Sum>k<n. (\<Sum>l<n. of_real (x l) * cis (- (2 * pi * real k * real l / real n)))
                  * cis (2 * pi * real j * real k / real n))
      = (\<Sum>k<n. \<Sum>l<n. of_real (x l) * cis (2 * pi * of_int (int j - int l) * real k / real n))"
  proof -
    have "of_real (x l) * cis (- (2 * pi * real k * real l / real n)) * cis (2 * pi * real j * real k / real n)
        = of_real (x l) * cis (2 * pi * of_int (int j - int l) * real k / real n)" for k l
    proof -
      have "- (2 * pi * real k * real l / real n) + 2 * pi * real j * real k / real n
          = 2 * pi * of_int (int j - int l) * real k / real n"
        by (simp add: algebra_simps diff_divide_distrib)
      then show ?thesis by (simp only: mult.assoc cis_mult)
    qed
    then show ?thesis by (simp only: sum_distrib_right)
  qed
  also have "\<dots> = (\<Sum>l<n. \<Sum>k<n. of_real (x l) * cis (2 * pi * of_int (int j - int l) * real k / real n))"
    by (rule sum.swap)
  also have "\<dots> = (\<Sum>l<n. of_real (x l) * (if int n dvd int j - int l then of_nat n else 0))"
    by (simp only: sum_distrib_left[symmetric] unity_sum[OF n])
  also have "\<dots> = (\<Sum>l<n. if l = j then of_nat n * complex_of_real (x j) else 0)"
  proof (rule sum.cong[OF refl])
    fix l assume "l \<in> {..<n}"
    then have l: "l < n" by simp
    have "int n dvd int j - int l \<longleftrightarrow> l = j"
    proof
      assume d: "int n dvd int j - int l"
      have "\<bar>int j - int l\<bar> < int n" using l j by linarith
      with d have "int j - int l = 0" using zdvd_not_zless[of "\<bar>int j - int l\<bar>" "int n"] by (cases "int j - int l = 0") auto
      then show "l = j" by simp
    qed simp
    then show "of_real (x l) * (if int n dvd int j - int l then of_nat n else 0)
        = (if l = j then of_nat n * complex_of_real (x j) else 0)" by simp
  qed
  also have "\<dots> = of_nat n * complex_of_real (x j)" using j by simp
  finally show ?thesis .
qed

lemma irfft_rfft:
  assumes X: "rfft x = Some X" and ev: "even (length x)" and n: "2 \<le> length x"
  shows "irfft X = Some x"
proof -
  define n where "n = length x"
  have lx: "length X = n div 2 + 1" using length_rfft[OF X] by (simp add: n_def)
  have n2: "2 * (length X - 1) = n" using ev lx by (auto simp: n_def elim!: evenE)
  have pos: "0 < n" using n by (auto simp: n_def)
  have ne: "x \<noteq> []" using n by auto
  have "(\<lambda>j. Re (\<Sum>k<n. hermitian X n k * cis (2 * pi * real j * real k / real n)) / real n) j = x ! j"
    if "j < n" for j
  proof -
    have "(\<Sum>k<n. hermitian X n k * cis (2 * pi * real j * real k / real n))
        = (\<Sum>k<n. (\<Sum>l<n. of_real (x ! l) * cis (- (2 * pi * real k * real l / real n)))
                  * cis (2 * pi * real j * real k / real n))"
      using hermitian_rfft[OF X n_def] ev pos ne by (simp add: n_def)
    also have "\<dots> = of_nat n * complex_of_real (x ! j)"
      by (rule dft_inverse[OF pos that])
    finally show ?thesis using pos by simp
  qed
  then have "map (\<lambda>j. Re (\<Sum>k<n. hermitian X n k * cis (2 * pi * real j * real k / real n)) / real n) [0..<n] = x"
    by (auto simp: n_def intro!: nth_equalityI)
  then show ?thesis unfolding irfft_def Let_def n2 using pos by simp
qed

section \<open>The spectral gate\<close>

text \<open>
  The smoothing kernel of line 52 is \<open>[0, 1/4, 1/2, 1/4, 0]\<close>, so a smoothed weight is a
  quarter of each neighbour plus half of the bin itself, with zeros beyond both ends.
\<close>

lemma np_convolve_Array1 [simp]: "np_convolve (Array1 a) (Array1 v) = np_convolve_same a v"
  by (simp add: np_convolve_def)

lemma window_5: "map (\<lambda>w. w / sum_list (hanning 5)) (hanning 5) = [0, 1/4, 1/2, 1/4, 0]"
  by (simp add: hanning_5)

lemma conv_full_5:
  "conv_full a [0, 1/4, 1/2, 1/4, 0] (Suc (Suc i)) =
     (if Suc i < length a then a ! (Suc i) / 4 else 0)
     + (if i < length a then a ! i / 2 else 0)
     + (if 0 < i \<and> i - 1 < length a then a ! (i - 1) / 4 else 0)"
  by (simp add: conv_full_def upt_5)

lemma convolve_same_5:
  assumes "5 \<le> length a"
  shows "np_convolve_same a [0, 1/4, 1/2, 1/4, 0] =
     Some (map (\<lambda>i. (if i + 1 < length a then a ! (i + 1) / 4 else 0) + a ! i / 2
                    + (if 0 < i then a ! (i - 1) / 4 else 0)) [0..<length a])"
  using assms by (auto simp: np_convolve_same_def Let_def conv_full_5)

lemma length_convolve_same:
  "np_convolve_same a v = Some s \<Longrightarrow> length s = max (length a) (length v)"
  by (auto simp: np_convolve_same_def Let_def split: if_splits)

lemma convolve_same_Some: "a \<noteq> [] \<Longrightarrow> v \<noteq> [] \<Longrightarrow> \<exists>s. np_convolve_same a v = Some s"
  by (auto simp: np_convolve_same_def Let_def)

lemma keep_mask_zeros: "keep_mask (replicate m 0) nr = replicate m False"
  by (simp add: keep_mask_def np_mean_def Let_def sum_list_replicate)

lemma length_keep_mask: "length (keep_mask X nr) = length X"
  by (simp add: keep_mask_def Let_def)

lemma take_irfft:
  assumes "rfft x = Some X" "irfft Y = Some y" "length Y = length X"
  shows "(if length y \<noteq> length x then take (length x) y else y) = y"
proof -
  have "length y = 2 * (length x div 2)"
    using length_irfft[OF assms(2)] length_rfft[OF assms(1)] assms(3) by simp
  then have "length y \<le> length x" by simp
  then show ?thesis by simp
qed

lemma gate_spectrum:
  assumes X: "rfft x = Some X" and m: "5 \<le> length X"
  shows "\<exists>s. np_convolve_same (map of_bool (keep_mask X nr)) [0, 1/4, 1/2, 1/4, 0] = Some s
             \<and> length s = length X
             \<and> gate x nr = irfft (map2 (\<lambda>z w. z * of_real w) X s)"
proof -
  have "map of_bool (keep_mask X nr) \<noteq> ([]::real list)"
    using m by (auto simp: keep_mask_def Let_def)
  then obtain s where s: "np_convolve_same (map of_bool (keep_mask X nr)) [0, 1/4, 1/2, 1/4, 0] = Some s"
    using convolve_same_Some[of "map of_bool (keep_mask X nr)" "[0, 1/4, 1/2, 1/4, 0]"] by auto
  have ls: "length s = length X"
    using length_convolve_same[OF s] m by (simp add: length_keep_mask)
  have "gate x nr = irfft (map2 (\<lambda>z w. z * of_real w) X s)"
  proof (cases "irfft (map2 (\<lambda>z w. z * of_real w) X s)")
    case None
    then show ?thesis by (simp add: gate_def X window_5 s broadcast_to_def ls)
  next
    case (Some y)
    have "length (map2 (\<lambda>z w. z * complex_of_real w) X s) = length X" by (simp add: ls)
    from take_irfft[OF X Some this] Some show ?thesis
      by (simp add: gate_def X window_5 s broadcast_to_def ls)
  qed
  with s ls show ?thesis by blast
qed

lemma gate_short:
  assumes "length x < 8"
  shows "gate x nr = None"
proof (cases "rfft x")
  case None
  then show ?thesis by (simp add: gate_def)
next
  case (Some X)
  have m: "length X < 5" "0 < length X" using length_rfft[OF Some] assms by auto
  show ?thesis
  proof (cases "np_convolve_same (map of_bool (keep_mask X nr)) [0, 1/4, 1/2, 1/4, 0]")
    case None
    then show ?thesis by (simp add: gate_def Some window_5)
  next
    case (Some s)
    have "length s = 5" using length_convolve_same[OF Some] m by (simp add: length_keep_mask)
    then show ?thesis using m by (simp add: gate_def \<open>rfft x = Some X\<close> window_5 Some broadcast_to_def)
  qed
qed

lemma rfft_Some: "x \<noteq> [] \<Longrightarrow> \<exists>X. rfft x = Some X"
  by (simp add: rfft_def Let_def)

lemma length_gate:
  assumes "gate x nr = Some y"
  shows "8 \<le> length x \<and> length y = 2 * (length x div 2)"
proof -
  have n: "8 \<le> length x" using gate_short[of x nr] assms by (cases "length x < 8") auto
  then have "x \<noteq> []" by auto
  then obtain X where X: "rfft x = Some X" using rfft_Some by blast
  have m: "5 \<le> length X" using length_rfft[OF X] n by simp
  from gate_spectrum[OF X m, of nr] obtain s where
    "length s = length X" "gate x nr = irfft (map2 (\<lambda>z w. z * of_real w) X s)" by blast
  then have "length y = 2 * (length X - 1)" using assms length_irfft[of _ y] by simp
  then show ?thesis using n length_rfft[OF X] by simp
qed

lemma gate_zeros:
  assumes "8 \<le> n"
  shows "gate (replicate n 0) nr = Some (replicate (2 * (n div 2)) 0)"
proof -
  have X: "rfft (replicate n 0) = Some (replicate (n div 2 + 1) 0)"
    using assms by (simp add: rfft_zeros)
  have m: "5 \<le> length (replicate (n div 2 + 1) (0::complex))" using assms by simp
  from gate_spectrum[OF X m, of nr] obtain s where
    s: "np_convolve_same (map of_bool (keep_mask (replicate (n div 2 + 1) 0) nr)) [0, 1/4, 1/2, 1/4, 0] = Some s"
    and g: "gate (replicate n 0) nr = irfft (map2 (\<lambda>z w. z * of_real w) (replicate (n div 2 + 1) 0) s)"
    and ls: "length s = n div 2 + 1"
    by auto
  have "map2 (\<lambda>z w. z * complex_of_real w) (replicate (n div 2 + 1) 0) s = replicate (n div 2 + 1) 0"
    using ls by (auto simp: nth_Cons' intro!: nth_equalityI)
  then show ?thesis using g irfft_zeros[of "n div 2 + 1"] assms by simp
qed

lemma rfft_const:
  assumes n: "0 < n"
  shows "rfft (replicate n c) = Some (of_real (real n * c) # replicate (n div 2) 0)"
proof -
  have bin: "(\<Sum>l<n. of_real (replicate n c ! l) * cis (- (2 * pi * real k * real l / real n)))
      = (if k = 0 then of_real (real n * c) else 0)" if k: "k < n div 2 + 1" for k
  proof -
    have "(\<Sum>l<n. of_real (replicate n c ! l) * cis (- (2 * pi * real k * real l / real n)))
        = (\<Sum>l<n. of_real c * cis (2 * pi * of_int (- int k) * real l / real n))"
      by (rule sum.cong) simp_all
    also have "\<dots> = of_real c * (if int n dvd - int k then of_nat n else 0)"
      by (simp only: sum_distrib_left[symmetric] unity_sum[OF n])
    also have "int n dvd - int k \<longleftrightarrow> k = 0"
    proof
      assume "int n dvd - int k"
      then have "n dvd k" by simp
      moreover have "k < n" using k n by linarith
      ultimately show "k = 0" by (meson dvd_imp_le leD zero_less_iff_neq_zero)
    qed simp
    finally show ?thesis by simp
  qed
  have "map (\<lambda>k. \<Sum>l<n. of_real (replicate n c ! l) * cis (- (2 * pi * real k * real l / real n)))
          [0..<n div 2 + 1] = of_real (real n * c) # replicate (n div 2) 0"
    using bin by (auto simp: nth_Cons' simp del: upt_Suc intro!: nth_equalityI)
  then show ?thesis using n unfolding rfft_def Let_def by simp
qed

lemma irfft_dc:
  assumes h: "1 \<le> h"
  shows "irfft (a # replicate h 0) = Some (replicate (2 * h) (Re a / real (2 * h)))"
proof -
  have herm: "hermitian (a # replicate h 0) (2 * h) k = (if k = 0 then a else 0)" if "k < 2 * h" for k
    using that h by (auto simp: hermitian_def nth_Cons')
  have "(\<Sum>k<2 * h. hermitian (a # replicate h 0) (2 * h) k * cis (2 * pi * real j * real k / real (2 * h)))
      = a" for j
  proof -
    have "(\<Sum>k<2 * h. hermitian (a # replicate h 0) (2 * h) k * cis (2 * pi * real j * real k / real (2 * h)))
        = (\<Sum>k<2 * h. if k = 0 then a else 0)"
      by (rule sum.cong) (simp_all add: herm)
    also have "\<dots> = a" using h by simp
    finally show ?thesis .
  qed
  then have "map (\<lambda>j. Re (\<Sum>k<2 * h. hermitian (a # replicate h 0) (2 * h) k
                  * cis (2 * pi * real j * real k / real (2 * h))) / real (2 * h)) [0..<2 * h]
      = replicate (2 * h) (Re a / real (2 * h))"
    by (auto intro!: nth_equalityI)
  moreover have "2 * (length (a # replicate h 0) - 1) = 2 * h" by simp
  ultimately show ?thesis unfolding irfft_def Let_def using h by simp
qed

lemma gate_ones_8:
  assumes "0 \<le> nr" "nr < 5"
  shows "gate (replicate 8 1) nr = Some (replicate 8 (1 / 2))"
proof -
  have d: "(8::nat) div 2 = 4" by simp
  have r: "replicate 4 (0::complex) = [0, 0, 0, 0]" by (simp add: eval_nat_numeral)
  have X: "rfft (replicate 8 1) = Some [8, 0, 0, 0, 0]"
    using rfft_const[of 8 1] unfolding d r by simp
  have k: "keep_mask [8, 0, 0, 0, 0] nr = [True, False, False, False, False]"
    using assms by (simp add: keep_mask_def np_mean_def Let_def)
  have s: "np_convolve_same [1, 0, 0, 0, 0] [0, 1/4, 1/2, 1/4, 0] = Some [1/2, 1/4, 0, 0, 0]"
    by (simp add: convolve_same_5 upt_5)
  have i: "irfft [4, 0, 0, 0, 0] = Some (replicate 8 (1 / 2))"
    using irfft_dc[of 4 4] unfolding r by simp
  from gate_spectrum[OF X, of nr] show ?thesis
    by (auto simp: k s i)
qed

lemma irfft_Some: "2 \<le> length Y \<Longrightarrow> \<exists>y. irfft Y = Some y"
  by (auto simp: irfft_def Let_def)

lemma rfft_bin0:
  assumes "rfft x = Some X"
  shows "X ! 0 = of_real (sum_list x)"
proof -
  have "X ! 0 = (\<Sum>l<length x. of_real (x ! l) * cis (- (2 * pi * real 0 * real l / real (length x))))"
    using rfft_nth[OF assms, of 0] by simp
  also have "\<dots> = of_real (\<Sum>l<length x. x ! l)" by simp
  also have "(\<Sum>l<length x. x ! l) = sum_list x"
    by (simp add: sum_list_sum_nth atLeast0LessThan)
  finally show ?thesis .
qed

lemma sum_irfft:
  assumes y: "irfft Y = Some y"
  shows "sum_list y = Re (Y ! 0)"
proof -
  define n where "n = 2 * (length Y - 1)"
  have pos: "0 < n" and yy: "y = map (\<lambda>j. Re (\<Sum>k<n. hermitian Y n k * cis (2 * pi * real j * real k / real n)) / real n) [0..<n]"
    using y unfolding irfft_def Let_def n_def by (auto split: if_splits)
  have h0: "hermitian Y n 0 = Y ! 0" using pos by (auto simp: hermitian_def n_def)
  have inner: "(\<Sum>j<n. cis (2 * pi * real j * real k / real n)) = (if k = 0 then of_nat n else 0)"
    if k: "k < n" for k
  proof -
    have "(\<Sum>j<n. cis (2 * pi * real j * real k / real n))
        = (\<Sum>j<n. cis (2 * pi * of_int (int k) * real j / real n))"
      by (rule sum.cong) (simp_all add: mult_ac)
    also have "\<dots> = (if int n dvd int k then of_nat n else 0)" by (rule unity_sum[OF pos])
    also have "int n dvd int k \<longleftrightarrow> k = 0"
      using k by (auto dest: zdvd_imp_le)
    finally show ?thesis .
  qed
  have "sum_list y = (\<Sum>j<n. Re (\<Sum>k<n. hermitian Y n k * cis (2 * pi * real j * real k / real n)) / real n)"
    unfolding yy by (simp add: interv_sum_list_conv_sum_set_nat atLeast0LessThan)
  also have "\<dots> = Re (\<Sum>j<n. \<Sum>k<n. hermitian Y n k * cis (2 * pi * real j * real k / real n)) / real n"
    by (simp only: sum_divide_distrib Re_sum)
  also have "(\<Sum>j<n. \<Sum>k<n. hermitian Y n k * cis (2 * pi * real j * real k / real n))
      = (\<Sum>k<n. \<Sum>j<n. hermitian Y n k * cis (2 * pi * real j * real k / real n))"
    by (rule sum.swap)
  also have "\<dots> = (\<Sum>k<n. hermitian Y n k * (if k = 0 then of_nat n else 0))"
    by (rule sum.cong) (simp_all only: sum_distrib_left[symmetric] inner lessThan_iff)
  also have "\<dots> = (\<Sum>k<n. if k = 0 then hermitian Y n 0 * of_nat n else 0)"
    by (rule sum.cong) auto
  also have "\<dots> = hermitian Y n 0 * of_nat n" using pos by simp
  finally show ?thesis using pos by (simp add: h0)
qed

lemma smoothed_weight0:
  assumes "np_convolve_same (map of_bool bs) [0, 1/4, 1/2, 1/4, 0] = Some w" "5 \<le> length bs"
  shows "0 \<le> w ! 0 \<and> w ! 0 \<le> 3 / 4"
proof -
  have l: "0 < length bs" "1 < length bs" using assms(2) by auto
  have "np_convolve_same (map of_bool bs) [0, 1/4, 1/2, 1/4, 0] =
     Some (map (\<lambda>i. (if i + 1 < length bs then map of_bool bs ! (i + 1) / 4 else 0)
                    + map of_bool bs ! i / 2
                    + (if 0 < i then map of_bool bs ! (i - 1) / 4 else 0)) [0..<length bs])"
    using convolve_same_5[of "map of_bool bs"] assms(2) by simp
  with assms(1) have "w = map (\<lambda>i. (if i + 1 < length bs then map of_bool bs ! (i + 1) / 4 else 0)
                    + map of_bool bs ! i / 2
                    + (if 0 < i then map of_bool bs ! (i - 1) / 4 else 0)) [0..<length bs]"
    by simp
  then have "w ! 0 = of_bool (bs ! 1) / 4 + of_bool (bs ! 0) / 2"
    using l by (simp add: nth_map_upt)
  then show ?thesis by (cases "bs ! 1"; cases "bs ! 0") simp_all
qed

lemma gate_Some:
  assumes "8 \<le> length x"
  shows "\<exists>y. gate x nr = Some y \<and> length y = 2 * (length x div 2)"
proof -
  have "x \<noteq> []" using assms by auto
  then obtain X where X: "rfft x = Some X" using rfft_Some by blast
  have m: "5 \<le> length X" using length_rfft[OF X] assms by simp
  from gate_spectrum[OF X m, of nr] obtain w where
    lw: "length w = length X" and g: "gate x nr = irfft (map2 (\<lambda>z s. z * of_real s) X w)" by blast
  have "2 \<le> length (map2 (\<lambda>z s. z * complex_of_real s) X w)" using m lw by simp
  then obtain y where "irfft (map2 (\<lambda>z s. z * of_real s) X w) = Some y" using irfft_Some by blast
  with g length_gate[of x nr y] show ?thesis by simp
qed

section \<open>Broadcasting and the crossfade\<close>

text \<open>
  The result of a broadcast operation has the broadcast shape and columns of exactly that
  many frames; an in-place operation keeps the shape of its target.
\<close>

lemma all_length_iff: "all_length n cs \<longleftrightarrow> (\<forall>c\<in>set cs. length c = n)"
  by (induction cs) auto

lemma length_stretch [simp]: "length (stretch n xs) = n"
  by (simp add: stretch_def)


lemma bshape_same [simp]: "bshape n n = Some n"
  by (simp add: bshape_def)

lemma bshape_one [simp]: "bshape n 1 = Some n" "bshape n (Suc 0) = Some n"
  by (auto simp: bshape_def)

lemma binop2_shape:
  assumes "binop2 f a b = Some r"
  shows "bshape (frames a) (frames b) = Some (frames r)"
    and "bshape (channels a) (channels b) = Some (channels r)"
    and "wf_array r"
  using assms
  by (auto simp: binop2_def channels_def wf_array_def all_length_iff
      split: bind_splits dest!: set_zip_leftD)

lemma inplace2_shape:
  assumes "inplace2 f a b = Some r"
  shows "frames r = frames a" and "channels r = channels a" and "wf_array r"
  using assms binop2_shape(3)[of f a b r]
  by (auto simp: inplace2_def split: bind_splits if_splits)

lemma wf_nth: "wf_array a \<Longrightarrow> ch < channels a \<Longrightarrow> length (chans a ! ch) = frames a"
  by (simp add: wf_array_def all_length_iff channels_def)

lemma linspace_Some: "linspace a b n = Some xs \<Longrightarrow> 0 \<le> n \<and> length xs = nat n"
  by (auto simp: linspace_def split: if_splits)

lemma crossfade_SomeD:
  assumes "crossfade a prev ov = Some out"
  shows "\<exists>fin fout h1 fd h2.
      linspace 0 1 (fade_length a ov) = Some fin \<and>
      linspace 1 0 (fade_length a ov) = Some fout \<and>
      inplace2 (*) (rows_take (nat (fade_length a ov)) a) (newaxis fin) = Some h1 \<and>
      binop2 (*) (rows_tail (nat (fade_length a ov)) prev) (newaxis fout) = Some fd \<and>
      inplace2 (+) (rows_take (nat (fade_length a ov)) (rows_put (nat (fade_length a ov)) a h1)) fd
        = Some h2 \<and>
      out = rows_put (nat (fade_length a ov)) (rows_put (nat (fade_length a ov)) a h1) h2"
  using assms by (auto simp: crossfade_def Let_def split: bind_splits)

lemma rows_take_shape [simp]:
  "frames (rows_take f a) = min f (frames a)" "channels (rows_take f a) = channels a"
  by (simp_all add: rows_take_def channels_def)

lemma rows_put_frames [simp]: "frames (rows_put f a r) = frames a"
  by (simp add: rows_put_def)

lemma rows_put_channels: "channels r = channels a \<Longrightarrow> channels (rows_put f a r) = channels a"
  by (simp add: rows_put_def channels_def)

lemma rows_put_nth:
  assumes "channels r = channels a" "ch < channels a"
  shows "chans (rows_put f a r) ! ch = chans r ! ch @ drop f (chans a ! ch)"
  using assms by (simp add: rows_put_def channels_def)

lemma crossfade_shape:
  assumes "crossfade a prev ov = Some out"
  shows "frames out = frames a" and "channels out = channels a"
proof -
  from crossfade_SomeD[OF assms] obtain fin and fout :: "real list" and h1 fd h2 where
    h1: "inplace2 (*) (rows_take (nat (fade_length a ov)) a) (newaxis fin) = Some h1" and
    h2: "inplace2 (+) (rows_take (nat (fade_length a ov)) (rows_put (nat (fade_length a ov)) a h1)) fd
        = Some h2" and
    out: "out = rows_put (nat (fade_length a ov)) (rows_put (nat (fade_length a ov)) a h1) h2"
    by blast
  have c1: "channels h1 = channels a" using inplace2_shape(2)[OF h1] by simp
  have c2: "channels h2 = channels (rows_put (nat (fade_length a ov)) a h1)"
    using inplace2_shape(2)[OF h2] by simp
  show "frames out = frames a" by (simp add: out)
  show "channels out = channels a" using c1 c2 by (simp add: out rows_put_channels)
qed

lemma crossfade_column:
  assumes cf: "crossfade a prev ov = Some out" and ch: "ch < channels a"
  shows "\<exists>r1 r2. length r1 = min (nat (fade_length a ov)) (frames a) \<and> length r2 = length r1 \<and>
           chans out ! ch = r2 @ drop (nat (fade_length a ov)) (r1 @ drop (nat (fade_length a ov)) (chans a ! ch))"
proof -
  define f where "f = nat (fade_length a ov)"
  from crossfade_SomeD[OF cf] obtain fin and fout :: "real list" and h1 fd h2 where
    h1: "inplace2 (*) (rows_take f a) (newaxis fin) = Some h1" and
    h2: "inplace2 (+) (rows_take f (rows_put f a h1)) fd = Some h2" and
    out: "out = rows_put f (rows_put f a h1) h2"
    unfolding f_def by blast
  have c1: "channels h1 = channels a" and f1: "frames h1 = min f (frames a)" and w1: "wf_array h1"
    using inplace2_shape[OF h1] by simp_all
  have ca: "channels (rows_put f a h1) = channels a" using c1 by (rule rows_put_channels)
  have c2: "channels h2 = channels a" and f2: "frames h2 = min f (frames a)" and w2: "wf_array h2"
    using inplace2_shape[OF h2] ca by simp_all
  have "chans out ! ch = chans h2 ! ch @ drop f (chans h1 ! ch @ drop f (chans a ! ch))"
    using ch c1 c2 ca by (simp add: out rows_put_nth)
  moreover have "length (chans h1 ! ch) = min f (frames a)"
    using wf_nth[OF w1] ch c1 f1 by simp
  moreover have "length (chans h2 ! ch) = min f (frames a)"
    using wf_nth[OF w2] ch c2 f2 by simp
  ultimately show ?thesis unfolding f_def by auto
qed

lemma crossfade_wf:
  assumes cf: "crossfade a prev ov = Some out" and wf: "wf_array a"
  shows "wf_array out"
proof -
  have "length (chans out ! ch) = frames out" if ch: "ch < channels out" for ch
  proof -
    have ch': "ch < channels a" using ch crossfade_shape(2)[OF cf] by simp
    from crossfade_column[OF cf ch'] obtain r1 r2 where
      r: "length r1 = min (nat (fade_length a ov)) (frames a)" "length r2 = length r1"
         "chans out ! ch = r2 @ drop (nat (fade_length a ov)) (r1 @ drop (nat (fade_length a ov)) (chans a ! ch))"
      by blast
    have "length (chans a ! ch) = frames a" using wf_nth[OF wf ch'] .
    then show ?thesis using r crossfade_shape(1)[OF cf] by (auto simp: min_def)
  qed
  then show ?thesis
    by (auto simp: wf_array_def all_length_iff channels_def in_set_conv_nth)
qed

lemma crossfade_beyond:
  assumes cf: "crossfade a prev ov = Some out" and wf: "wf_array a"
    and ch: "ch < channels a" and i: "i < frames a" "fade_length a ov \<le> int i"
  shows "chans out ! ch ! i = chans a ! ch ! i"
proof -
  define f where "f = nat (fade_length a ov)"
  from crossfade_column[OF cf ch] obtain r1 r2 where
    r: "length r1 = min f (frames a)" "length r2 = length r1"
       "chans out ! ch = r2 @ drop f (r1 @ drop f (chans a ! ch))"
    unfolding f_def by blast
  have fi: "f \<le> i" using i(2) by (simp add: f_def)
  have la: "length (chans a ! ch) = frames a" using wf_nth[OF wf ch] .
  have l1: "length r1 = f" "length r2 = f" using r fi i(1) by auto
  show ?thesis using fi la l1 i(1) by (simp add: r(3) nth_append)
qed

lemma binop2_Some:
  assumes "bshape (frames a) (frames b) = Some n" "bshape (channels a) (channels b) = Some c"
  shows "\<exists>r. binop2 f a b = Some r \<and> frames r = n \<and> channels r = c"
  using assms by (simp add: binop2_def channels_def)

lemma inplace2_Some:
  assumes "bshape (frames a) (frames b) = Some (frames a)"
    "bshape (channels a) (channels b) = Some (channels a)"
  shows "\<exists>r. inplace2 f a b = Some r"
  using binop2_Some[OF assms, of f] by (auto simp: inplace2_def)

lemma newaxis_shape [simp]: "frames (newaxis xs) = length xs" "channels (newaxis xs) = 1"
  by (simp_all add: newaxis_def channels_def)

lemma rows_tail_shape:
  "0 < f \<Longrightarrow> frames (rows_tail f a) = min f (frames a)" "channels (rows_tail f a) = channels a"
  by (simp_all add: rows_tail_def channels_def)

lemma linspace_ex: "0 \<le> n \<Longrightarrow> \<exists>xs. linspace a b n = Some xs \<and> length xs = nat n"
  by (simp add: linspace_def)

lemma crossfade_Some:
  assumes shape: "same_shape prev a"
    and f: "1 \<le> fade_length a ov" "fade_length a ov \<le> int (frames a)"
  shows "\<exists>out. crossfade a prev ov = Some out"
proof -
  define f where "f = nat (fade_length a ov)"
  have f1: "0 < f" "f \<le> frames a" "min f (frames a) = f" using f by (auto simp: f_def)
  obtain fin where fin: "linspace 0 1 (fade_length a ov) = Some fin" "length fin = f"
    using linspace_ex[of "fade_length a ov" 0 1] f by (auto simp: f_def)
  obtain fout where fout: "linspace 1 0 (fade_length a ov) = Some fout" "length fout = f"
    using linspace_ex[of "fade_length a ov" 1 0] f by (auto simp: f_def)
  obtain h1 where h1: "inplace2 (*) (rows_take f a) (newaxis fin) = Some h1"
    using inplace2_Some[of "rows_take f a" "newaxis fin" "(*)"] f1 fin by auto
  have c1: "channels (rows_put f a h1) = channels a"
    using inplace2_shape(2)[OF h1] by (simp add: rows_put_channels)
  obtain fd where fd: "binop2 (*) (rows_tail f prev) (newaxis fout) = Some fd"
    "frames fd = f" "channels fd = channels a"
    using binop2_Some[of "rows_tail f prev" "newaxis fout" f "channels a" "(*)"] f1 fout shape
    by (auto simp: rows_tail_shape same_shape_def)
  obtain h2 where h2: "inplace2 (+) (rows_take f (rows_put f a h1)) fd = Some h2"
    using inplace2_Some[of "rows_take f (rows_put f a h1)" fd "(+)"] f1 fd c1 by auto
  show ?thesis
    using fin fout h1 fd h2 by (simp add: crossfade_def Let_def f_def[symmetric])
qed

lemma upt_4: "[0..<4] = [0,1,2,3]" by (simp add: upt_rec)

lemma cf_ok: "crossfade \<lparr>frames = 8, chans = [[1/2,1/2,1/2,1/2,1/2,1/2,1/2,1/2]]\<rparr>
   \<lparr>frames = 8, chans = [[0,0,0,0,0,0,0,0]]\<rparr> (1 / 2) =
    Some \<lparr>frames = 8, chans = [[0,1/6,1/3,1/2,1/2,1/2,1/2,1/2]]\<rparr>"
  by (simp add: crossfade_def fade_length_def py_int_def linspace_def newaxis_def upt_4
      inplace2_def binop2_def rows_take_def rows_tail_def rows_put_def bshape_def channels_def stretch_def)

text \<open>
  With fade length 0 the slice \<^verbatim>\<open>prev_buffer[-fade_len:]\<close> is the whole buffer, so the
  crossfade can only return for a previous buffer of at most one frame.
\<close>

lemma crossfade_zero_fade:
  assumes "crossfade a prev ov = Some out" "fade_length a ov = 0"
  shows "frames prev \<le> 1"
proof -
  from crossfade_SomeD[OF assms(1)] obtain fout fd where
    l: "linspace 1 0 (fade_length a ov) = Some fout" and
    b: "binop2 (*) (rows_tail (nat (fade_length a ov)) prev) (newaxis fout) = Some fd" by blast
  have "fout = []" using l assms(2) by (simp add: linspace_def)
  with binop2_shape(1)[OF b] assms(2) show ?thesis
    by (auto simp: rows_tail_def bshape_def split: if_splits)
qed

section \<open>The two sections of the callback\<close>



lemma channel_loop_frames:
  assumes "channel_loop nr (ch # chs) a = Some a'" "wf_array a" "ch < channels a"
  shows "8 \<le> frames a \<and> even (frames a)"
proof -
  from assms(1) obtain y b where y: "gate (chans a ! ch) nr = Some y"
    and b: "store_column a ch y = Some b"
    by (auto split: bind_splits)
  have l: "length (chans a ! ch) = frames a" using wf_nth[OF assms(2,3)] .
  from length_gate[OF y] l have n: "8 \<le> frames a" and ly: "length y = 2 * (frames a div 2)" by auto
  from b have "length y = frames a \<or> length y = 1"
    by (auto simp: store_column_def broadcast_to_def split: bind_splits if_splits)
  with ly n have "2 * (frames a div 2) = frames a" by auto
  then have "even (frames a)" by (metis dvd_triv_left)
  with n show ?thesis by simp
qed

lemma try2_raises: "try2 self indata = (self\<lparr>prev_buffer := Some (init_prev self indata)\<rparr>, None)"
  by (simp add: try2_def np_convolve_def Let_def split: option.splits)

lemma init_prev_idem [simp]:
  "init_prev (self\<lparr>prev_buffer := Some (init_prev self indata)\<rparr>) indata' = init_prev self indata"
  by (simp add: init_prev_def)

lemma process1_init [simp]:
  "process1 (self\<lparr>prev_buffer := Some (init_prev self indata)\<rparr>) indata = process1 self indata"
  by (simp add: process1_def)

lemma prev_buffer_try1:
  "prev_buffer (fst (try1 self indata)) =
     Some (case process1 self indata of None \<Rightarrow> init_prev self indata | Some a \<Rightarrow> a)"
  by (simp add: try1_def Let_def split: option.splits)

lemma fst_section1: "fst (section1 self indata) = fst (try1 self indata)"
  by (simp add: section1_def split: prod.splits option.splits)

lemma section2_eq:
  "section2 self indata outdata = (self\<lparr>prev_buffer := Some (init_prev self indata)\<rparr>, indata)"
  by (simp add: section2_def try2_raises)

lemma init_prev_Some: "prev_buffer self = Some p \<Longrightarrow> init_prev self indata = p"
  by (simp add: init_prev_def)

lemma callback_eq: "callback self indata = (fst (section1 self indata), indata)"
proof -
  obtain s out where s: "section1 self indata = (s, out)" by (cases "section1 self indata")
  obtain p where p: "prev_buffer s = Some p"
    using prev_buffer_try1[of self indata] fst_section1[of self indata] s by auto
  have "s\<lparr>prev_buffer := Some (init_prev s indata)\<rparr> = s"
    using p by (simp add: init_prev_Some)
  then show ?thesis by (simp add: callback_def s section2_eq)
qed

lemma replicate_8: "replicate 8 x = [x, x, x, x, x, x, x, x]"
  by (simp add: eval_nat_numeral)

lemma replicate_9: "replicate 9 x = [x, x, x, x, x, x, x, x, x]"
  by (simp add: eval_nat_numeral)

lemma process1_ones:
  "process1 AudioProcessor_init \<lparr>frames = 8, chans = [[1, 1, 1, 1, 1, 1, 1, 1]]\<rparr>
     = Some \<lparr>frames = 8, chans = [[0, 1/6, 1/3, 1/2, 1/2, 1/2, 1/2, 1/2]]\<rparr>"
proof -
  have g: "gate [1, 1, 1, 1, 1, 1, 1, 1] (1 / 2) = Some [1/2, 1/2, 1/2, 1/2, 1/2, 1/2, 1/2, 1/2]"
    using gate_ones_8[of "1 / 2"] by (simp add: replicate_8)
  show ?thesis
    by (simp add: process1_def AudioProcessor_init_def channels_def init_prev_def zeros_like_def
        replicate_8 g store_column_def broadcast_to_def cf_ok)
qed

lemma np_max_abs_nonneg: "np_max (map abs xs) = Some p \<Longrightarrow> 0 \<le> (p::real)"
proof -
  assume a: "np_max (map abs xs) = Some p"
  then have ne: "xs \<noteq> []" and p: "p = Max (set (map abs xs))"
    by (auto simp: np_max_def split: if_splits)
  have "\<bar>hd xs\<bar> \<in> set (map abs xs)" using ne by (cases xs) auto
  then have "\<bar>hd xs\<bar> \<le> p" unfolding p by (intro Max_ge) auto
  then show ?thesis by linarith
qed

lemma np_max_scaled:
  assumes "np_max (map abs xs) = Some p" "0 < p"
  shows "np_max (map abs (map (\<lambda>x. x / p * (9 / 10)) xs)) = Some (9 / 10)"
proof -
  from assms(1) have ne: "xs \<noteq> []" and p: "p = Max (set (map abs xs))"
    by (auto simp: np_max_def split: if_splits)
  have m: "mono (\<lambda>a::real. a / p * (9 / 10))"
    using assms(2) by (auto intro!: monoI simp: divide_right_mono)
  have "\<bar>x / p * (9 / 10)\<bar> = \<bar>x\<bar> / p * (9 / 10)" for x :: real
    using assms(2) by (simp add: abs_mult)
  then have "map abs (map (\<lambda>x. x / p * (9 / 10)) xs) = map (\<lambda>a. a / p * (9 / 10)) (map abs xs)"
    by (simp only: map_map o_def)
  then have "Max (set (map abs (map (\<lambda>x. x / p * (9 / 10)) xs)))
      = Max ((\<lambda>a. a / p * (9 / 10)) ` set (map abs xs))" by (simp only: set_map)
  also have "\<dots> = Max (set (map abs xs)) / p * (9 / 10)"
    using ne by (intro mono_Max_commute[OF m, symmetric]) auto
  also have "\<dots> = 9 / 10" using assms(2) p by simp
  finally show ?thesis using ne by (simp add: np_max_def)
qed

lemma np_max_bound: "np_max xs = Some p \<Longrightarrow> x \<in> set xs \<Longrightarrow> x \<le> p"
  by (auto simp: np_max_def split: if_splits)






lemma process1_odd:
  assumes "wf_array a" "0 < channels a" "odd (frames a)"
  shows "process1 self a = None"
proof (cases "channel_loop (noise_reduction self) [0..<channels a] a")
  case None
  then show ?thesis by (simp add: process1_def)
next
  case (Some g)
  have "[0..<channels a] = 0 # [1..<channels a]" using assms(2) by (simp add: upt_rec)
  with Some channel_loop_frames[of "noise_reduction self" 0 "[1..<channels a]" a g] assms
  show ?thesis by simp
qed

lemma section1_failed:
  "process1 self indata = None \<Longrightarrow>
   section1 self indata = (self\<lparr>prev_buffer := Some (init_prev self indata)\<rparr>, indata)"
  by (simp add: section1_def try1_def)






lemma crossfade_halves_ramp:
  "crossfade \<lparr>frames = 8, chans = [[1/2, 1/2, 1/2, 1/2, 1/2, 1/2, 1/2, 1/2]]\<rparr>
     \<lparr>frames = 8, chans = [[0, 1/6, 1/3, 1/2, 1/2, 1/2, 1/2, 1/2]]\<rparr> (1 / 2)
   = Some \<lparr>frames = 8, chans = [[1/2, 1/2, 1/2, 1/2, 1/2, 1/2, 1/2, 1/2]]\<rparr>"
  by (simp add: crossfade_def fade_length_def py_int_def linspace_def newaxis_def upt_4
      inplace2_def binop2_def rows_take_def rows_tail_def rows_put_def bshape_def channels_def
      stretch_def)


lemma gate_ones_half:
  "gate [1, 1, 1, 1, 1, 1, 1, 1] (1 / 2) = Some [1/2, 1/2, 1/2, 1/2, 1/2, 1/2, 1/2, 1/2]"
  using gate_ones_8[of "1 / 2"] by (simp add: replicate_8)

lemma process1_ones_after:
  "process1 (AudioProcessor_init\<lparr>prev_buffer := Some p\<rparr>)
     \<lparr>frames = 8, chans = [[1, 1, 1, 1, 1, 1, 1, 1]]\<rparr>
   = crossfade \<lparr>frames = 8, chans = [[1/2, 1/2, 1/2, 1/2, 1/2, 1/2, 1/2, 1/2]]\<rparr> p (1 / 2)"
  by (simp add: process1_def AudioProcessor_init_def channels_def init_prev_def
      gate_ones_half store_column_def broadcast_to_def)



lemma fade_length_half:
  "fade_length cur (overlap AudioProcessor_init) = 0 \<longleftrightarrow> frames cur \<le> 1"
proof -
  have "\<lfloor>real (frames cur) * (1 / 2)\<rfloor> = int (frames cur div 2)"
    using floor_divide_of_nat_eq[of "frames cur" 2, where ?'a = real] by simp
  then have "fade_length cur (overlap AudioProcessor_init) = int (frames cur div 2)"
    by (simp add: fade_length_def py_int_def AudioProcessor_init_def)
  then show ?thesis by auto
qed

lemma overlap_kept:
  "overlap (fst (callback self indata)) = overlap self"
  by (simp add: callback_eq fst_section1 try1_def Let_def split: option.splits)

lemma crossfade_Some_zero:
  assumes shape: "same_shape prev a" and f: "fade_length a ov = 0" and n: "frames a \<le> 1"
  shows "\<exists>out. crossfade a prev ov = Some out"
proof -
  have fin: "linspace 0 1 (fade_length a ov) = Some []" "linspace 1 0 (fade_length a ov) = Some []"
    using f by (simp_all add: linspace_def)
  obtain h1 where h1: "inplace2 (*) (rows_take 0 a) (newaxis []) = Some h1"
    using inplace2_Some[of "rows_take 0 a" "newaxis []" "(*)"] by auto
  have c1: "channels (rows_put 0 a h1) = channels a"
    using inplace2_shape(2)[OF h1] by (simp add: rows_put_channels)
  have "bshape (frames prev) 0 = Some 0"
    using shape n by (auto simp: same_shape_def bshape_def)
  then obtain fd where fd: "binop2 (*) (rows_tail 0 prev) (newaxis []) = Some fd"
    "frames fd = 0" "channels fd = channels a"
    using binop2_Some[of "rows_tail 0 prev" "newaxis []" 0 "channels a" "(*)"] shape
    by (auto simp: rows_tail_def same_shape_def)
  obtain h2 where h2: "inplace2 (+) (rows_take 0 (rows_put 0 a h1)) fd = Some h2"
    using inplace2_Some[of "rows_take 0 (rows_put 0 a h1)" fd "(+)"] fd c1 by auto
  show ?thesis
    using fin h1 fd h2 f by (simp add: crossfade_def Let_def)
qed

lemma crossfade_zero_same:
  assumes c: "crossfade a prev ov = Some out" and f: "fade_length a ov = 0"
  shows "out = a"
proof -
  have ch: "channels out = channels a" and fr: "frames out = frames a"
    using crossfade_shape[OF c] by simp_all
  have "chans out ! i = chans a ! i" if "i < channels a" for i
  proof -
    from crossfade_column[OF c that] f obtain r1 r2 :: "real list" where
      "length r1 = 0" "length r2 = length r1"
      "chans out ! i = r2 @ drop 0 (r1 @ drop 0 (chans a ! i))" by auto
    then show ?thesis by simp
  qed
  then have "chans out = chans a"
    using ch by (auto simp: channels_def intro!: nth_equalityI)
  with fr show ?thesis by (cases out, cases a) simp
qed

lemma process1_cong:
  assumes "noise_reduction s = noise_reduction t" "overlap s = overlap t"
    "prev_buffer s = prev_buffer t"
  shows "process1 s b = process1 t b"
  using assms by (simp add: process1_def init_prev_def)

lemma running_kept: "running (fst (callback self indata)) = running self"
  by (simp add: callback_eq fst_section1 try1_def Let_def split: option.splits)

section \<open>The claims\<close>

text \<open>
  C1. For every two-dimensional block the callback ends with \<^verbatim>\<open>outdata\<close> equal to the raw
  input: the second section always raises (an empty block at the transform, every other at
  \<^verbatim>\<open>np.convolve\<close> on the two-dimensional mask) and its handler writes \<^verbatim>\<open>indata\<close>. The
  previous buffer is then the one the first section left: its gated and crossfaded block,
  before normalisation, or the buffer of lines 33-34 when the first section raised before
  line 77.
\<close>

theorem callback_outputs_raw_input:
  "snd (callback self indata) = indata \<and>
   snd (try2 (fst (section1 self indata)) indata) = None \<and>
   prev_buffer (fst (callback self indata)) =
     Some (case process1 self indata of None \<Rightarrow> init_prev self indata | Some processed \<Rightarrow> processed)"
  by (simp add: callback_eq try2_raises fst_section1 prev_buffer_try1)

text \<open>
  An instance: eight frames of 1.0 on one channel, from the initial processor. The gate
  halves the block, the crossfade with the zero buffer ramps its first four frames, and that
  block is retained while the output is the raw input.
\<close>

theorem callback_outputs_raw_input_witness:
  "snd (callback AudioProcessor_init \<lparr>frames = 8, chans = [[1, 1, 1, 1, 1, 1, 1, 1]]\<rparr>)
     = \<lparr>frames = 8, chans = [[1, 1, 1, 1, 1, 1, 1, 1]]\<rparr> \<and>
   prev_buffer (fst (callback AudioProcessor_init \<lparr>frames = 8, chans = [[1, 1, 1, 1, 1, 1, 1, 1]]\<rparr>))
     = Some \<lparr>frames = 8, chans = [[0, 1/6, 1/3, 1/2, 1/2, 1/2, 1/2, 1/2]]\<rparr>"
  using callback_outputs_raw_input[of AudioProcessor_init
      "\<lparr>frames = 8, chans = [[1, 1, 1, 1, 1, 1, 1, 1]]\<rparr>"]
  by (simp add: process1_ones)

text \<open>
  C2 (corrected). With strength 0 the gate is not an all-pass. For a channel of even
  length \<open>N \<ge> 8\<close> the transform pair alone is lossless, \<open>irfft (rfft x) = x\<close>, and the gate
  returns \<open>N\<close> samples, the inverse transform of the spectrum weighted by the smoothed
  keep-mask. The zero padding of the kernel bounds the weight of the first bin by 3/4, and
  the samples of the output sum to that weight times the sum of the input: a signal
  whose samples do not sum to zero is not reconstructed.
\<close>

theorem gate_strength_zero:
  assumes ev: "even (length x)" and n: "8 \<le> length x"
  shows "\<exists>X w y. rfft x = Some X \<and> irfft X = Some x
      \<and> np_convolve_same (map of_bool (keep_mask X 0)) [0, 1/4, 1/2, 1/4, 0] = Some w
      \<and> irfft (map2 (\<lambda>z s. z * of_real s) X w) = Some y
      \<and> gate x 0 = Some y \<and> length y = length x
      \<and> 0 \<le> w ! 0 \<and> w ! 0 \<le> 3 / 4 \<and> sum_list y = w ! 0 * sum_list x"
proof -
  have "x \<noteq> []" using n by auto
  then obtain X where X: "rfft x = Some X" using rfft_Some by blast
  have m: "5 \<le> length X" using length_rfft[OF X] n by simp
  have inv: "irfft X = Some x" using irfft_rfft[OF X ev] n by simp
  from gate_spectrum[OF X m, of 0] obtain w where
    w: "np_convolve_same (map of_bool (keep_mask X 0)) [0, 1/4, 1/2, 1/4, 0] = Some w"
    and lw: "length w = length X"
    and g: "gate x 0 = irfft (map2 (\<lambda>z s. z * of_real s) X w)" by blast
  have "2 \<le> length (map2 (\<lambda>z s. z * complex_of_real s) X w)" using m lw by simp
  then obtain y where y: "irfft (map2 (\<lambda>z s. z * of_real s) X w) = Some y"
    using irfft_Some by blast
  have ly: "length y = length x"
    using length_gate[of x 0 y] g y ev by (auto elim!: evenE)
  have w0: "0 \<le> w ! 0 \<and> w ! 0 \<le> 3 / 4"
    using smoothed_weight0[OF w] m by (simp add: length_keep_mask)
  have "sum_list y = Re (map2 (\<lambda>z s. z * complex_of_real s) X w ! 0)"
    by (rule sum_irfft[OF y])
  also have "\<dots> = Re (X ! 0 * of_real (w ! 0))"
  proof -
    have "0 < length X" "0 < length w" using m lw by auto
    then show ?thesis by simp
  qed
  also have "\<dots> = w ! 0 * sum_list x" by (simp add: rfft_bin0[OF X])
  finally have "sum_list y = w ! 0 * sum_list x" .
  with X inv w y g ly w0 show ?thesis by auto
qed

theorem gate_strength_zero_witness:
  "even (length (replicate 8 (1::real))) \<and> 8 \<le> length (replicate 8 (1::real)) \<and>
   (\<exists>X w y. rfft (replicate 8 1) = Some X \<and> irfft X = Some (replicate 8 1)
      \<and> np_convolve_same (map of_bool (keep_mask X 0)) [0, 1/4, 1/2, 1/4, 0] = Some w
      \<and> irfft (map2 (\<lambda>z s. z * of_real s) X w) = Some y
      \<and> gate (replicate 8 1) 0 = Some y \<and> length y = length (replicate 8 (1::real))
      \<and> 0 \<le> w ! 0 \<and> w ! 0 \<le> 3 / 4 \<and> sum_list y = w ! 0 * sum_list (replicate 8 1))"
  using gate_strength_zero[of "replicate 8 1"] by simp

text \<open>
  The claim of C2 as stated fails: eight samples of value 1 come back as eight samples of
  value 1/2 (the mask keeps the first bin only, and its smoothed weight is 1/2).
\<close>

theorem gate_strength_zero_counterexample:
  "gate (replicate 8 1) 0 = Some (replicate 8 (1 / 2)) \<and>
   gate (replicate 8 1) 0 \<noteq> Some (replicate 8 1)"
  using gate_ones_8[of 0] by simp

text \<open>
  C3 (the code differs). The slider is set to 30 before its signal is connected and before
  the processor exists, so the processor keeps the 0.5 of its constructor: a freshly built
  window shows 30 and processes with strength 0.5. Only a later change of the slider
  maps the user-facing scale into the processor (30 would give 0.3).
\<close>

theorem default_strength_is_one_half:
  "map_option slider_value AudioDenoiser_init = Some 30 \<and>
   map_option (map_option noise_reduction \<circ> audio_processor) AudioDenoiser_init
     = Some (Some (1 / 2)) \<and>
   map_option (map_option noise_reduction \<circ> audio_processor)
     (AudioDenoiser_init \<bind> (\<lambda>d. update_noise_reduction d 30)) = Some (Some (3 / 10))"
  by (simp add: AudioDenoiser_init_def setValue_def AudioProcessor_init_def
      update_noise_reduction_def)

text \<open>
  C4 (corrected). An all-zero channel of even length \<open>N \<ge> 8\<close> is returned unchanged for every
  strength: the spectrum is zero, the threshold is zero, the keep-mask is all-false (the
  comparison of line 46 is strict), every bin is multiplied by zero and the inverse
  transform of the zero spectrum is the zero signal.
\<close>

theorem gate_silence:
  assumes "even n" "8 \<le> n"
  shows "rfft (replicate n 0) = Some (replicate (n div 2 + 1) 0) \<and>
         keep_mask (replicate (n div 2 + 1) 0) nr = replicate (n div 2 + 1) False \<and>
         gate (replicate n 0) nr = Some (replicate n 0)"
proof -
  have "2 * (n div 2) = n" using assms(1) by (auto elim!: evenE)
  then have "gate (replicate n 0) nr = Some (replicate n 0)"
    using gate_zeros[OF assms(2), of nr] by simp
  moreover have "rfft (replicate n 0) = Some (replicate (n div 2 + 1) 0)"
    using assms(2) by (intro rfft_zeros) simp
  ultimately show ?thesis by (simp only: keep_mask_zeros simp_thms)
qed

theorem gate_silence_witness:
  "even (8::nat) \<and> (8::nat) \<le> 8 \<and>
   rfft (replicate 8 0) = Some (replicate (8 div 2 + 1) 0) \<and>
   keep_mask (replicate (8 div 2 + 1) 0) (3 / 10) = replicate (8 div 2 + 1) False \<and>
   gate (replicate 8 0) (3 / 10) = Some (replicate 8 0)"
  using gate_silence[of 8 "3 / 10"] by simp

text \<open>
  The claim of C4 as stated fails: for eight zero samples the keep-mask is all-false, not
  all-true; nine zero samples come back as eight; and two zero samples raise (the smoothed
  mask of a spectrum of fewer than five bins has five entries).
\<close>

theorem gate_silence_counterexample:
  "rfft (replicate 8 0) = Some (replicate 5 0) \<and>
   keep_mask (replicate 5 0) (3 / 10) = replicate 5 False \<and>
   gate (replicate 9 0) (3 / 10) = Some (replicate 8 0) \<and>
   gate (replicate 2 0) (3 / 10) = None"
  using rfft_zeros[of 8] gate_zeros[of 9 "3 / 10"] gate_short[of "replicate 2 0" "3 / 10"]
  by (simp add: keep_mask_zeros)

text \<open>
  C5. When the peak of a block (the maximum of the absolute values of its samples) is
  strictly positive, normalisation replaces every sample \<open>x\<close> by \<open>x / peak * 0.9\<close>, the peak
  of the result is 0.9 and no sample exceeds 0.9 in absolute value; when the peak is 0 the
  block is returned unchanged. (A zero-size block has no peak: \<^verbatim>\<open>np.max\<close> raises.)
\<close>

theorem normalize_peak:
  assumes peak: "np_max (map abs (concat (chans b))) = Some peak"
  shows "0 \<le> peak \<and>
    (0 < peak \<longrightarrow>
       normalize b = Some (b\<lparr>chans := map (map (\<lambda>x. x / peak * (9 / 10))) (chans b)\<rparr>) \<and>
       np_max (map abs (concat (map (map (\<lambda>x. x / peak * (9 / 10))) (chans b)))) = Some (9 / 10) \<and>
       (\<forall>y \<in> set (concat (map (map (\<lambda>x. x / peak * (9 / 10))) (chans b))). \<bar>y\<bar> \<le> 9 / 10)) \<and>
    (peak = 0 \<longrightarrow> normalize b = Some b)"
proof (intro conjI impI)
  show "0 \<le> peak" using np_max_abs_nonneg[OF peak] .
next
  assume p: "0 < peak"
  show "normalize b = Some (b\<lparr>chans := map (map (\<lambda>x. x / peak * (9 / 10))) (chans b)\<rparr>)"
    using p by (simp add: normalize_def peak)
  show m: "np_max (map abs (concat (map (map (\<lambda>x. x / peak * (9 / 10))) (chans b)))) = Some (9 / 10)"
    using np_max_scaled[OF peak p] by (simp only: map_concat)
  show "\<forall>y \<in> set (concat (map (map (\<lambda>x. x / peak * (9 / 10))) (chans b))). \<bar>y\<bar> \<le> 9 / 10"
  proof
    fix y assume "y \<in> set (concat (map (map (\<lambda>x. x / peak * (9 / 10))) (chans b)))"
    then have "\<bar>y\<bar> \<in> set (map abs (concat (map (map (\<lambda>x. x / peak * (9 / 10))) (chans b))))"
      by simp
    then show "\<bar>y\<bar> \<le> 9 / 10" using np_max_bound[OF m] by blast
  qed
next
  assume "peak = 0"
  then show "normalize b = Some b" by (simp add: normalize_def peak)
qed

theorem normalize_peak_witness:
  "np_max (map abs (concat (chans \<lparr>frames = 2, chans = [[1 / 2, - 1 / 4]]\<rparr>))) = Some (1 / 2) \<and>
   normalize \<lparr>frames = 2, chans = [[1 / 2, - 1 / 4]]\<rparr>
     = Some \<lparr>frames = 2, chans = [[9 / 10, - 9 / 20]]\<rparr> \<and>
   np_max (map abs (concat (chans \<lparr>frames = 2, chans = [[9 / 10, - 9 / 20 :: real]]\<rparr>))) = Some (9 / 10)"
proof -
  have h: "np_max (map abs (concat (chans \<lparr>frames = 2, chans = [[1 / 2, - 1 / 4]]\<rparr>))) = Some (1 / 2)"
    by (simp add: np_max_def)
  from normalize_peak[OF h] h show ?thesis by simp
qed




text \<open>
  C7 (the code differs). For odd \<open>N\<close> the inverse transform returns \<open>N - 1\<close> samples; line 62
  only trims, so the gate returns \<open>N - 1\<close> samples and the store of line 65 raises. On nine
  frames the gate returns eight samples, the first section raises and writes the raw input.
\<close>

theorem odd_block_is_one_sample_short:
  "map_option length (gate [1, 2, 3, 4, 5, 6, 7, 8, 9] (1 / 2)) = Some 8 \<and>
   process1 AudioProcessor_init \<lparr>frames = 9, chans = [[1, 2, 3, 4, 5, 6, 7, 8, 9]]\<rparr> = None \<and>
   section1 AudioProcessor_init \<lparr>frames = 9, chans = [[1, 2, 3, 4, 5, 6, 7, 8, 9]]\<rparr>
     = (AudioProcessor_init\<lparr>prev_buffer := Some \<lparr>frames = 9, chans = [[0, 0, 0, 0, 0, 0, 0, 0, 0]]\<rparr>\<rparr>,
        \<lparr>frames = 9, chans = [[1, 2, 3, 4, 5, 6, 7, 8, 9]]\<rparr>)"
proof -
  have g: "map_option length (gate [1, 2, 3, 4, 5, 6, 7, 8, 9] (1 / 2)) = Some 8"
    using gate_Some[of "[1, 2, 3, 4, 5, 6, 7, 8, 9]" "1 / 2"] by auto
  have p: "process1 AudioProcessor_init \<lparr>frames = 9, chans = [[1, 2, 3, 4, 5, 6, 7, 8, 9]]\<rparr> = None"
    by (rule process1_odd) (simp_all add: wf_array_def channels_def)
  have z: "init_prev AudioProcessor_init \<lparr>frames = 9, chans = [[1, 2, 3, 4, 5, 6, 7, 8, 9]]\<rparr>
      = \<lparr>frames = 9, chans = [[0, 0, 0, 0, 0, 0, 0, 0, 0]]\<rparr>"
    by (simp add: init_prev_def AudioProcessor_init_def zeros_like_def replicate_9)
  show ?thesis
    using g p section1_failed[OF p] by (simp only: z simp_thms)
qed

text \<open>
  C8. The overlap is assigned once, 0.5 in the constructor (line 19), and neither the
  callback nor \<^verbatim>\<open>stop\<close> changes it. At that overlap the fade length is 0 exactly for blocks
  of at most one frame, and for every such block and every previous block of its shape the
  crossfade returns the current block unchanged and raises nothing.
\<close>

theorem zero_fade_length_is_noop:
  assumes "same_shape prev cur" "fade_length cur (overlap AudioProcessor_init) = 0"
  shows "frames cur \<le> 1 \<and> crossfade cur prev (overlap AudioProcessor_init) = Some cur"
proof -
  have n: "frames cur \<le> 1" using assms(2) by (simp add: fade_length_half)
  from crossfade_Some_zero[OF assms(1,2) n] obtain out where
    out: "crossfade cur prev (overlap AudioProcessor_init) = Some out" by blast
  from crossfade_zero_same[OF out assms(2)] out n show ?thesis by simp
qed

theorem zero_fade_length_is_noop_witness:
  "same_shape \<lparr>frames = 1, chans = [[7], [8 :: real]]\<rparr> \<lparr>frames = 1, chans = [[5], [6 :: real]]\<rparr> \<and>
   fade_length \<lparr>frames = 1, chans = [[5], [6]]\<rparr> (overlap AudioProcessor_init) = 0 \<and>
   crossfade \<lparr>frames = 1, chans = [[5], [6]]\<rparr> \<lparr>frames = 1, chans = [[7], [8]]\<rparr>
     (overlap AudioProcessor_init) = Some \<lparr>frames = 1, chans = [[5], [6]]\<rparr>"
proof -
  have s: "same_shape \<lparr>frames = 1, chans = [[7], [8 :: real]]\<rparr>
      \<lparr>frames = 1, chans = [[5], [6 :: real]]\<rparr>"
    by (simp add: same_shape_def channels_def)
  have f: "fade_length \<lparr>frames = 1, chans = [[5], [6]]\<rparr> (overlap AudioProcessor_init) = 0"
    by (simp add: fade_length_def py_int_def AudioProcessor_init_def)
  from zero_fade_length_is_noop[OF s f] s f show ?thesis by simp
qed

text \<open>
  C9. For a current and a previous block of equal shape the crossfade returns whenever the
  fade length is between 1 and the number of frames, and whenever it returns, the result
  has the shape of the current block and every frame at an index at or beyond the fade
  length is the frame of the current block.
\<close>

theorem crossfade_leaves_later_frames:
  assumes "wf_array cur" "wf_array prev" "same_shape prev cur"
  shows "(1 \<le> fade_length cur ov \<and> fade_length cur ov \<le> int (frames cur)
            \<longrightarrow> (\<exists>out. crossfade cur prev ov = Some out)) \<and>
         (\<forall>out. crossfade cur prev ov = Some out \<longrightarrow>
            same_shape out cur \<and> wf_array out \<and>
            (\<forall>ch < channels cur. \<forall>i < frames cur.
               fade_length cur ov \<le> int i \<longrightarrow> chans out ! ch ! i = chans cur ! ch ! i))"
proof (intro conjI impI allI)
  assume "1 \<le> fade_length cur ov \<and> fade_length cur ov \<le> int (frames cur)"
  then show "\<exists>out. crossfade cur prev ov = Some out"
    using crossfade_Some[OF assms(3)] by blast
next
  fix out assume c: "crossfade cur prev ov = Some out"
  show "same_shape out cur" using crossfade_shape[OF c] by (simp add: same_shape_def)
  show "wf_array out" using crossfade_wf[OF c assms(1)] .
  fix ch i assume "ch < channels cur" "i < frames cur" "fade_length cur ov \<le> int i"
  then show "chans out ! ch ! i = chans cur ! ch ! i"
    using crossfade_beyond[OF c assms(1)] by blast
qed

theorem crossfade_leaves_later_frames_witness:
  "wf_array \<lparr>frames = 8, chans = [[1/2, 1/2, 1/2, 1/2, 1/2, 1/2, 1/2, 1/2 :: real]]\<rparr> \<and>
   fade_length \<lparr>frames = 8, chans = [[1/2, 1/2, 1/2, 1/2, 1/2, 1/2, 1/2, 1/2]]\<rparr> (1 / 2) = 4 \<and>
   crossfade \<lparr>frames = 8, chans = [[1/2, 1/2, 1/2, 1/2, 1/2, 1/2, 1/2, 1/2]]\<rparr>
       \<lparr>frames = 8, chans = [[1, 1, 1, 1, 1, 1, 1, 1]]\<rparr> (1 / 2)
     = Some \<lparr>frames = 8, chans = [[1, 5/6, 2/3, 1/2, 1/2, 1/2, 1/2, 1/2]]\<rparr> \<and>
   chans \<lparr>frames = 8, chans = [[1, 5/6, 2/3, 1/2, 1/2, 1/2, 1/2, 1/2 :: real]]\<rparr> ! 0 ! 4
     = chans \<lparr>frames = 8, chans = [[1/2, 1/2, 1/2, 1/2, 1/2, 1/2, 1/2, 1/2 :: real]]\<rparr> ! 0 ! 4"
proof -
  have w1: "wf_array \<lparr>frames = 8, chans = [[1/2, 1/2, 1/2, 1/2, 1/2, 1/2, 1/2, 1/2 :: real]]\<rparr>"
    and w2: "wf_array \<lparr>frames = 8, chans = [[1, 1, 1, 1, 1, 1, 1, 1 :: real]]\<rparr>"
    and sh: "same_shape \<lparr>frames = 8, chans = [[1, 1, 1, 1, 1, 1, 1, 1 :: real]]\<rparr>
       \<lparr>frames = 8, chans = [[1/2, 1/2, 1/2, 1/2, 1/2, 1/2, 1/2, 1/2 :: real]]\<rparr>"
    by (simp_all add: wf_array_def same_shape_def channels_def)
  have c: "crossfade \<lparr>frames = 8, chans = [[1/2, 1/2, 1/2, 1/2, 1/2, 1/2, 1/2, 1/2]]\<rparr>
       \<lparr>frames = 8, chans = [[1, 1, 1, 1, 1, 1, 1, 1]]\<rparr> (1 / 2)
     = Some \<lparr>frames = 8, chans = [[1, 5/6, 2/3, 1/2, 1/2, 1/2, 1/2, 1/2]]\<rparr>"
    by (simp add: crossfade_def fade_length_def py_int_def linspace_def newaxis_def upt_4
      inplace2_def binop2_def rows_take_def rows_tail_def rows_put_def bshape_def channels_def
      stretch_def)
  have f: "fade_length \<lparr>frames = 8, chans = [[1/2, 1/2, 1/2, 1/2, 1/2, 1/2, 1/2, 1/2]]\<rparr> (1 / 2) = 4"
    by (simp add: fade_length_def py_int_def)
  have i: "0 < channels \<lparr>frames = 8, chans = [[1/2, 1/2, 1/2, 1/2, 1/2, 1/2, 1/2, 1/2 :: real]]\<rparr>"
    "4 < frames \<lparr>frames = 8, chans = [[1/2, 1/2, 1/2, 1/2, 1/2, 1/2, 1/2, 1/2 :: real]]\<rparr>"
    "fade_length \<lparr>frames = 8, chans = [[1/2, 1/2, 1/2, 1/2, 1/2, 1/2, 1/2, 1/2]]\<rparr> (1 / 2) \<le> int 4"
    by (simp_all add: channels_def f)
  from crossfade_leaves_later_frames[OF w1 w2 sh, of "1 / 2"] c i have
    "chans \<lparr>frames = 8, chans = [[1, 5/6, 2/3, 1/2, 1/2, 1/2, 1/2, 1/2 :: real]]\<rparr> ! 0 ! 4
       = chans \<lparr>frames = 8, chans = [[1/2, 1/2, 1/2, 1/2, 1/2, 1/2, 1/2, 1/2 :: real]]\<rparr> ! 0 ! 4"
    by blast
  with c w1 f show ?thesis by (simp only: simp_thms)
qed

text \<open>
  C10 (the code differs). \<^verbatim>\<open>stop\<close> clears the running flag and the previous buffer, but the
  stream stays open until the next poll of the run loop, and a block delivered in between
  sets the buffer again (lines 33-34 and 77); nothing clears it when a session starts. After
  Start, Stop, one late block of eight frames of 1.0 and Start, the first block of the new
  session is crossfaded with the late block (giving 0.5 throughout); started from an
  all-zero buffer it would fade in from 0.
\<close>

theorem late_callback_refills_buffer:
  "running (stop self) = False \<and> prev_buffer (stop self) = None \<and>
   running (fst (callback (stop self) indata)) = False \<and>
   prev_buffer (fst (callback (stop self) indata)) =
     Some (case process1 (stop self) indata of None \<Rightarrow> zeros_like indata | Some a \<Rightarrow> a) \<and>
   prev_buffer (toggle_processing (fst (callback (stop self) indata)) device) =
     Some (case process1 (stop self) indata of None \<Rightarrow> zeros_like indata | Some a \<Rightarrow> a) \<and>
   process1 (toggle_processing
       (fst (callback (toggle_processing (toggle_processing AudioProcessor_init device) device)
          \<lparr>frames = 8, chans = [[1, 1, 1, 1, 1, 1, 1, 1]]\<rparr>)) device)
     \<lparr>frames = 8, chans = [[1, 1, 1, 1, 1, 1, 1, 1]]\<rparr>
     = Some \<lparr>frames = 8, chans = [[1/2, 1/2, 1/2, 1/2, 1/2, 1/2, 1/2, 1/2]]\<rparr> \<and>
   process1 (toggle_processing
       (toggle_processing (toggle_processing AudioProcessor_init device) device) device)
     \<lparr>frames = 8, chans = [[1, 1, 1, 1, 1, 1, 1, 1]]\<rparr>
     = Some \<lparr>frames = 8, chans = [[0, 1/6, 1/3, 1/2, 1/2, 1/2, 1/2, 1/2]]\<rparr>"
proof -
  define ones :: block where "ones = \<lparr>frames = 8, chans = [[1, 1, 1, 1, 1, 1, 1, 1]]\<rparr>"
  define stopped where
    "stopped = toggle_processing (toggle_processing AudioProcessor_init device) device"
  have st: "noise_reduction stopped = 1 / 2" "overlap stopped = 1 / 2"
    "prev_buffer stopped = None" "running stopped = False"
    by (simp_all add: stopped_def toggle_processing_def stop_def AudioProcessor_init_def)
  have p0: "process1 stopped ones = process1 AudioProcessor_init ones"
    by (rule process1_cong) (simp_all add: st AudioProcessor_init_def)
  have pb: "prev_buffer (fst (callback s b)) =
      Some (case process1 s b of None \<Rightarrow> init_prev s b | Some a \<Rightarrow> a)" for s b
    by (simp add: callback_eq fst_section1 prev_buffer_try1)
  have late: "prev_buffer (fst (callback stopped ones)) =
      Some \<lparr>frames = 8, chans = [[0, 1/6, 1/3, 1/2, 1/2, 1/2, 1/2, 1/2]]\<rparr>"
    by (simp add: pb p0) (simp add: ones_def process1_ones)
  have keep: "noise_reduction (fst (callback s b)) = noise_reduction s" for s b
    by (simp add: callback_eq fst_section1 try1_def Let_def split: option.splits)
  have a: "process1 (toggle_processing (fst (callback stopped ones)) device) ones
      = process1 (AudioProcessor_init\<lparr>prev_buffer :=
          Some \<lparr>frames = 8, chans = [[0, 1/6, 1/3, 1/2, 1/2, 1/2, 1/2, 1/2]]\<rparr>\<rparr>) ones"
    by (rule process1_cong)
      (simp_all add: toggle_processing_def running_kept keep overlap_kept st late
        AudioProcessor_init_def)
  have b: "process1 (toggle_processing stopped device) ones = process1 AudioProcessor_init ones"
    by (rule process1_cong) (simp_all add: toggle_processing_def st AudioProcessor_init_def)
  have g: "running (stop self) = False \<and> prev_buffer (stop self) = None \<and>
    running (fst (callback (stop self) indata)) = False \<and>
    prev_buffer (fst (callback (stop self) indata)) =
      Some (case process1 (stop self) indata of None \<Rightarrow> zeros_like indata | Some a \<Rightarrow> a) \<and>
    prev_buffer (toggle_processing (fst (callback (stop self) indata)) device) =
      Some (case process1 (stop self) indata of None \<Rightarrow> zeros_like indata | Some a \<Rightarrow> a)"
  proof -
    have z: "init_prev (stop self) indata = zeros_like indata"
      by (simp add: stop_def init_prev_def)
    have r: "running (stop self) = False" "prev_buffer (stop self) = None"
      by (simp_all add: stop_def)
    show ?thesis by (simp add: running_kept pb toggle_processing_def z r split: option.splits)
  qed
  have c1: "process1 (toggle_processing (fst (callback stopped ones)) device) ones
      = Some \<lparr>frames = 8, chans = [[1/2, 1/2, 1/2, 1/2, 1/2, 1/2, 1/2, 1/2]]\<rparr>"
    unfolding a by (simp add: ones_def process1_ones_after crossfade_halves_ramp)
  have c2: "process1 (toggle_processing stopped device) ones
      = Some \<lparr>frames = 8, chans = [[0, 1/6, 1/3, 1/2, 1/2, 1/2, 1/2, 1/2]]\<rparr>"
    unfolding b by (simp add: ones_def process1_ones)
  show ?thesis using g c1 c2 unfolding stopped_def ones_def by blast
qed

end
